theory Spec2Isabelle
  imports Main "HOL-Library.Word"
begin

unbundle bit_operations_syntax

section \<open>Machine integers and undefined behaviour\<close>

type_synonym u8 = "8 word"
type_synonym u16 = "16 word"
type_synonym u32 = "32 word"

text \<open>
  The C++ source has no error returns.  The three constructors below mark the places where
  its behaviour is undefined: dereferencing the input pointer past the bytes it was given,
  indexing a vector, an array or the output buffer outside its bounds, and dividing by zero.
\<close>

datatype fault = ReadPastInput | IndexOutOfRange | DivideByZero

text \<open>Sequencing: a fault ends the run, a result is handed on.\<close>

definition andThen :: "fault + 'a \<Rightarrow> ('a \<Rightarrow> fault + 'b) \<Rightarrow> fault + 'b" where
  "andThen m f = (case m of Inl e \<Rightarrow> Inl e | Inr x \<Rightarrow> f x)"

lemma andThen_Inl [simp, code]: "andThen (Inl e) f = Inl e"
  by (simp add: andThen_def)

lemma andThen_Inr [simp, code]: "andThen (Inr x) f = f x"
  by (simp add: andThen_def)

lemma andThen_eq_Inr: "andThen m f = Inr y \<longleftrightarrow> (\<exists>x. m = Inr x \<and> f x = Inr y)"
  by (cases m) simp_all

section \<open>Oodle1Bitstream (include/oodle/Oodle1.h)\<close>

text \<open>
  The \<open>input\<close> pointer is a byte list together with the position \<open>cursor\<close> of the
  pointer in it.
\<close>

record Oodle1Bitstream =
  input :: "u8 list"
  cursor :: nat
  sr :: u32
  srModulus :: u32
  lsb :: u8

definition Oodle1Bitstream_new :: "u8 list \<Rightarrow> fault + Oodle1Bitstream" where
  "Oodle1Bitstream_new bytes =
     (if 0 < length bytes then
        Inr \<lparr>input = bytes, cursor = 1,
             sr = ucast (drop_bit 1 (bytes ! 0)),
             srModulus = 0x80,
             lsb = (bytes ! 0) AND 0x01\<rparr>
      else Inl ReadPastInput)"

function Ingest :: "Oodle1Bitstream \<Rightarrow> fault + Oodle1Bitstream" where
  "Ingest bs =
     (if srModulus bs \<le> 0x800000 then
        if cursor bs < length (input bs) then
          let sr1 = push_bit 1 (sr bs) OR ucast (lsb bs);
              b = input bs ! cursor bs;
              sr2 = push_bit 7 sr1 OR ucast (drop_bit 1 b)
          in Ingest (bs\<lparr>sr := sr2, lsb := b AND 0x01,
                         srModulus := push_bit 8 (srModulus bs),
                         cursor := cursor bs + 1\<rparr>)
        else Inl ReadPastInput
      else Inr bs)"
  by pat_completeness auto
termination
  by (relation "measure (\<lambda>bs. length (input bs) - cursor bs)") auto

declare Ingest.simps [simp del]

definition Peek :: "u32 \<Rightarrow> Oodle1Bitstream \<Rightarrow> fault + (u32 \<times> Oodle1Bitstream)" where
  "Peek one bs0 =
     andThen (Ingest bs0) (\<lambda>bs.
       if one = 0 then Inl DivideByZero else
       let scale = srModulus bs div one in
       if scale = 0 then Inl DivideByZero else
       let z = min (sr bs div scale) (one - 1) in
       Inr (z, bs))"

definition Consume :: "u32 \<Rightarrow> u32 \<Rightarrow> u32 \<Rightarrow> Oodle1Bitstream \<Rightarrow> fault + Oodle1Bitstream" where
  "Consume minZ spanZ one bs =
     (if one = 0 then Inl DivideByZero else
      let scale = srModulus bs div one;
          scaledZ = minZ * scale;
          bs1 = bs\<lparr>sr := sr bs - scaledZ\<rparr>
      in if minZ < one - spanZ
         then Inr (bs1\<lparr>srModulus := spanZ * scale\<rparr>)
         else Inr (bs1\<lparr>srModulus := srModulus bs1 - scaledZ\<rparr>))"

definition Get :: "u32 \<Rightarrow> Oodle1Bitstream \<Rightarrow> fault + (u32 \<times> Oodle1Bitstream)" where
  "Get one bs0 =
     andThen (Ingest bs0) (\<lambda>bs.
       if one = 0 then Inl DivideByZero else
       let scale = srModulus bs div one in
       if scale = 0 then Inl DivideByZero else
       let z = min (sr bs div scale) (one - 1);
           scaledZ = z * scale;
           bs1 = bs\<lparr>sr := sr bs - scaledZ\<rparr>
       in if z < one - 1
          then Inr (z, bs1\<lparr>srModulus := scale\<rparr>)
          else Inr (z, bs1\<lparr>srModulus := srModulus bs1 - scaledZ\<rparr>))"

section \<open>Oodle1Decoder (src/Oodle1.cpp)\<close>

text \<open>
  The three vectors are lists; \<open>v[i]\<close> outside a vector is a fault.  Loop counters are natural
  numbers: every counter indexes a vector before it is incremented, and a vector sized by
  \<open>resize\<close> from a \<open>uint32_t\<close> holds fewer than \<open>2^32\<close> entries, so the source's counters
  never wrap.
\<close>

record Oodle1Decoder =
  usedSymbolCount :: u32
  symbols :: "u8 list"
  symbolWeights :: "u16 list"
  symbolOccurrences :: "u16 list"
  totalOccurrence :: u32
  highestLearnedSymbol :: u32
  highestNormalizedSymbol :: u32
  nextRenormWeight :: u32
  decayThreshold :: u32
  rapidRenormInterval :: u32
  renormInterval :: u32

definition Oodle1Decoder_One :: u32 where
  "Oodle1Decoder_One = 0x4000"

text \<open>The default member initializers: what \<open>Oodle1Decoder() = default\<close> constructs.\<close>

definition Oodle1Decoder_new :: Oodle1Decoder where
  "Oodle1Decoder_new =
     \<lparr>usedSymbolCount = 0, symbols = [], symbolWeights = [], symbolOccurrences = [],
      totalOccurrence = 0, highestLearnedSymbol = 0, highestNormalizedSymbol = 0,
      nextRenormWeight = 0, decayThreshold = 0, rapidRenormInterval = 0, renormInterval = 0\<rparr>"

text \<open>\<open>std::vector::resize\<close>: keeps the leading elements, appends zeros.\<close>

definition resize :: "nat \<Rightarrow> ('a::zero) list \<Rightarrow> 'a list" where
  "resize n xs = take n xs @ replicate (n - length xs) 0"

text \<open>\<open>std::fill(v.begin() + k, v.end(), x)\<close>; a start beyond the end is a fault.\<close>

definition fill_from :: "nat \<Rightarrow> 'a \<Rightarrow> 'a list \<Rightarrow> fault + 'a list" where
  "fill_from k x xs =
     (if k \<le> length xs then Inr (take k xs @ replicate (length xs - k) x)
      else Inl IndexOutOfRange)"

definition Oodle1Decoder_Initialize :: "u32 \<Rightarrow> u32 \<Rightarrow> Oodle1Decoder \<Rightarrow> fault + Oodle1Decoder" where
  "Oodle1Decoder_Initialize alphabetSize uniqueSymbols d =
     (let n = unat (alphabetSize + 2) in
      if n = 0 then Inl IndexOutOfRange else
      let dT = max 256 (min ((alphabetSize - 1) * 32) 15160) in
      Inr (d\<lparr>usedSymbolCount := uniqueSymbols,
             symbols := resize n (symbols d),
             symbolWeights := (replicate n (ucast Oodle1Decoder_One))[0 := 0],
             symbolOccurrences := (resize n (symbolOccurrences d))[0 := 4],
             totalOccurrence := 4,
             nextRenormWeight := 8,
             decayThreshold := dT,
             rapidRenormInterval := 4,
             renormInterval := max 128 (min ((alphabetSize - 1) * 2) (dT div 2 - 32))\<rparr>))"

lemma unat_u32_less: "unat (w :: u32) < 4294967296"
  using unsigned_less [of w] by simp

lemma u32_counter_less: "idx \<le> unat (w :: u32) \<Longrightarrow> 4294967295 - idx < (4294967296 :: nat) - idx"
  using unat_u32_less [of w] by arith

lemma unat_pred_less: "(w :: u32) \<noteq> 0 \<Longrightarrow> unat (w - 1) < unat w"
  by (simp add: unat_minus_one unat_gt_0)

text \<open>
  Lines 57 to 60 of \<open>Decay\<close>: the top slot's occurrence and symbol are written to slot
  \<open>idx\<close>, the top slot's occurrence is cleared and \<open>highestLearnedSymbol\<close> goes down.
\<close>

definition Decay_evict :: "nat \<Rightarrow> Oodle1Decoder \<Rightarrow> Oodle1Decoder" where
  "Decay_evict idx d =
     (let h = unat (highestLearnedSymbol d) in
      d\<lparr>symbolOccurrences := (symbolOccurrences d)[idx := symbolOccurrences d ! h, h := 0],
        symbols := (symbols d)[idx := symbols d ! h],
        highestLearnedSymbol := highestLearnedSymbol d - 1\<rparr>)"

text \<open>The \<open>while\<close> loop of \<open>Decay\<close> at slot \<open>idx\<close> (lines 51 to 62).\<close>

function Decay_while :: "nat \<Rightarrow> Oodle1Decoder \<Rightarrow> fault + Oodle1Decoder" where
  "Decay_while idx d =
     (if idx < length (symbolOccurrences d) then
        if symbolOccurrences d ! idx \<le> 1 then
          if unat (highestLearnedSymbol d) \<le> idx then
            Inr (d\<lparr>symbolOccurrences := (symbolOccurrences d)[idx := 0],
                   highestLearnedSymbol := highestLearnedSymbol d - 1\<rparr>)
          else
            let h = unat (highestLearnedSymbol d) in
            if h < length (symbolOccurrences d) \<and> h < length (symbols d) \<and> idx < length (symbols d)
            then Decay_while idx (Decay_evict idx d)
            else Inl IndexOutOfRange
        else Inr d
      else Inl IndexOutOfRange)"
  by pat_completeness auto
termination
proof (relation "measure (\<lambda>(idx, d). unat (highestLearnedSymbol d))", goal_cases)
  case 1
  show ?case by simp
next
  case (2 idx d x)
  then have "highestLearnedSymbol d \<noteq> 0"
    by auto
  then show ?case
    by (simp add: unat_pred_less Decay_evict_def Let_def)
qed

declare Decay_while.simps [simp del]

text \<open>
  The \<open>for\<close> loop of \<open>Decay\<close> (lines 50 to 72), from \<open>idx\<close> on, with the running
  \<open>highestWeight\<close> and \<open>highestIndex\<close>.
\<close>

function Decay_for :: "nat \<Rightarrow> u32 \<Rightarrow> u32 \<Rightarrow> Oodle1Decoder \<Rightarrow> fault + (u32 \<times> u32 \<times> Oodle1Decoder)" where
  "Decay_for idx highestWeight highestIndex d =
     (if idx \<le> unat (highestLearnedSymbol d) then
        case Decay_while idx d of
          Inl e \<Rightarrow> Inl e
        | Inr d1 \<Rightarrow>
            if idx < length (symbolOccurrences d1) then
              if symbolOccurrences d1 ! idx = 0 then Inr (highestWeight, highestIndex, d1)
              else
                let half = symbolOccurrences d1 ! idx div 2;
                    d2 = d1\<lparr>symbolOccurrences := (symbolOccurrences d1)[idx := half],
                            totalOccurrence := totalOccurrence d1 + ucast half\<rparr>
                in if highestWeight < ucast half
                   then Decay_for (idx + 1) (ucast half) (of_nat idx) d2
                   else Decay_for (idx + 1) highestWeight highestIndex d2
            else Inl IndexOutOfRange
      else Inr (highestWeight, highestIndex, d))"
  by pat_completeness auto
termination
proof (relation "measure (\<lambda>(idx, hw, hi, d). 2 ^ 32 - idx)", goal_cases)
  case 1
  show ?case by simp
qed (auto intro: u32_counter_less)

declare Decay_for.simps [simp del]

text \<open>Lines 73 to 76 of \<open>Decay\<close>: the slot of the highest weight goes to the top.\<close>

definition Decay_swap :: "u32 \<Rightarrow> u32 \<Rightarrow> Oodle1Decoder \<Rightarrow> fault + Oodle1Decoder" where
  "Decay_swap highestWeight highestIndex d =
     (let h = unat (highestLearnedSymbol d); i = unat highestIndex in
      if highestWeight \<noteq> 0 \<and> highestIndex \<noteq> highestLearnedSymbol d then
        if h < length (symbolOccurrences d) \<and> i < length (symbolOccurrences d)
           \<and> h < length (symbols d) \<and> i < length (symbols d)
        then Inr (d\<lparr>symbolOccurrences :=
                       (symbolOccurrences d)[h := symbolOccurrences d ! i,
                                             i := symbolOccurrences d ! h],
                     symbols := (symbols d)[h := symbols d ! i, i := symbols d ! h]\<rparr>)
        else Inl IndexOutOfRange
      else Inr d)"

text \<open>Lines 77 to 80 of \<open>Decay\<close>: the escape slot is kept alive.\<close>

definition Decay_escape :: "Oodle1Decoder \<Rightarrow> Oodle1Decoder" where
  "Decay_escape d =
     (if highestLearnedSymbol d \<noteq> usedSymbolCount d \<and> symbolOccurrences d ! 0 = 0
      then d\<lparr>symbolOccurrences := (symbolOccurrences d)[0 := 1],
             totalOccurrence := totalOccurrence d + 1\<rparr>
      else d)"

text \<open>Lines 81 and 99: the weights above \<open>highestLearnedSymbol\<close> are set to \<open>One\<close>.\<close>

definition fill_weights :: "Oodle1Decoder \<Rightarrow> fault + Oodle1Decoder" where
  "fill_weights d =
     andThen (fill_from (unat (highestLearnedSymbol d) + 1) (ucast Oodle1Decoder_One)
                (symbolWeights d))
       (\<lambda>w. Inr (d\<lparr>symbolWeights := w\<rparr>))"

definition Decay :: "Oodle1Decoder \<Rightarrow> fault + Oodle1Decoder" where
  "Decay d0 =
     (if length (symbolOccurrences d0) = 0 then Inl IndexOutOfRange else
      let half0 = symbolOccurrences d0 ! 0 div 2;
          d = d0\<lparr>symbolOccurrences := (symbolOccurrences d0)[0 := half0],
                 totalOccurrence := ucast half0\<rparr>
      in andThen (Decay_for 1 0 0 d) (\<lambda>(highestWeight, highestIndex, d1).
         andThen (Decay_swap highestWeight highestIndex d1) (\<lambda>d2.
         fill_weights (Decay_escape d2))))"

text \<open>The \<open>for\<close> loop of \<open>Renormalize\<close> (lines 88 to 91), from \<open>idx\<close> on.\<close>

function Renormalize_for :: "nat \<Rightarrow> u32 \<Rightarrow> u32 \<Rightarrow> Oodle1Decoder \<Rightarrow> fault + Oodle1Decoder" where
  "Renormalize_for idx quanta accumulator d =
     (if idx \<le> unat (highestLearnedSymbol d) then
        if idx < length (symbolWeights d) \<and> idx < length (symbolOccurrences d) then
          Renormalize_for (idx + 1) quanta
            (accumulator + (ucast (symbolOccurrences d ! idx) * quanta) div 8)
            (d\<lparr>symbolWeights := (symbolWeights d)[idx := ucast accumulator]\<rparr>)
        else Inl IndexOutOfRange
      else Inr d)"
  by pat_completeness auto
termination
proof (relation "measure (\<lambda>(idx, q, a, d). 2 ^ 32 - idx)", goal_cases)
  case 1
  show ?case by simp
qed (auto intro: u32_counter_less)

declare Renormalize_for.simps [simp del]

text \<open>Lines 92 to 98 of \<open>Renormalize\<close>: the next renormalisation is scheduled.\<close>

definition Renormalize_schedule :: "Oodle1Decoder \<Rightarrow> Oodle1Decoder" where
  "Renormalize_schedule d =
     (let d1 = (if rapidRenormInterval d * 2 < renormInterval d
                then d\<lparr>rapidRenormInterval := rapidRenormInterval d * 2,
                       nextRenormWeight := totalOccurrence d + rapidRenormInterval d * 2\<rparr>
                else d\<lparr>nextRenormWeight := totalOccurrence d + renormInterval d\<rparr>)
      in d1\<lparr>highestNormalizedSymbol := highestLearnedSymbol d1\<rparr>)"

definition Renormalize :: "Oodle1Decoder \<Rightarrow> fault + Oodle1Decoder" where
  "Renormalize d0 =
     (if totalOccurrence d0 = 0 then Inl DivideByZero else
      let quanta = 0x20000 div totalOccurrence d0 in
      if length (symbolWeights d0) = 0 \<or> length (symbolOccurrences d0) = 0
      then Inl IndexOutOfRange else
      let d = d0\<lparr>symbolWeights := (symbolWeights d0)[0 := 0]\<rparr>;
          accumulator = (ucast (symbolOccurrences d ! 0) * quanta) div 8
      in andThen (Renormalize_for 1 quanta accumulator d) (\<lambda>d1.
         fill_weights (Renormalize_schedule d1)))"

text \<open>Lines 103 to 108 of \<open>Decode\<close>: the model adapts before the symbol is read.\<close>

definition Decode_adapt :: "Oodle1Decoder \<Rightarrow> fault + Oodle1Decoder" where
  "Decode_adapt d =
     (if nextRenormWeight d \<le> totalOccurrence d then
        if decayThreshold d \<le> totalOccurrence d then andThen (Decay d) Renormalize
        else Renormalize d
      else Inr d)"

text \<open>The scan of lines 111 to 115, from \<open>symbolIdx\<close> on.\<close>

function Decode_scan :: "nat \<Rightarrow> u32 \<Rightarrow> Oodle1Decoder \<Rightarrow> fault + nat" where
  "Decode_scan symbolIdx z d =
     (if symbolIdx \<le> unat (highestNormalizedSymbol d) then
        if symbolIdx + 1 < length (symbolWeights d) then
          if z < ucast (symbolWeights d ! (symbolIdx + 1)) then Inr symbolIdx
          else Decode_scan (symbolIdx + 1) z d
        else Inl IndexOutOfRange
      else Inr symbolIdx)"
  by pat_completeness auto
termination
proof (relation "measure (\<lambda>(idx, z, d). 2 ^ 32 - idx)", goal_cases)
  case 1
  show ?case by simp
qed (auto intro: u32_counter_less)

declare Decode_scan.simps [simp del]

text \<open>Lines 131 to 140 of \<open>Decode\<close>: a symbol that has not been seen is learned.\<close>

definition Decode_learn ::
  "Oodle1Bitstream \<Rightarrow> u32 \<Rightarrow> Oodle1Decoder \<Rightarrow> fault + (u32 \<times> Oodle1Bitstream \<times> Oodle1Decoder)" where
  "Decode_learn bs alphabetSize d =
     (let d1 = d\<lparr>highestLearnedSymbol := highestLearnedSymbol d + 1\<rparr>;
          h = unat (highestLearnedSymbol d1)
      in andThen (Get alphabetSize bs) (\<lambda>(symbol, bs1).
         if h < length (symbols d1) \<and> h < length (symbolOccurrences d1) then
           let d2 = d1\<lparr>symbols := (symbols d1)[h := ucast symbol],
                       symbolOccurrences :=
                         (symbolOccurrences d1)[h := symbolOccurrences d1 ! h + 2],
                       totalOccurrence := totalOccurrence d1 + 2\<rparr>
           in if highestLearnedSymbol d2 = usedSymbolCount d2 then
                Inr (symbol, bs1,
                     d2\<lparr>totalOccurrence :=
                           totalOccurrence d2 - ucast (symbolOccurrences d2 ! 0),
                         symbolOccurrences := (symbolOccurrences d2)[0 := 0]\<rparr>)
              else Inr (symbol, bs1, d2)
         else Inl IndexOutOfRange))"

text \<open>Lines 122 to 140 of \<open>Decode\<close>: the escape slot was hit (\<open>symbolIdx == 0\<close>).\<close>

definition Decode_escape ::
  "Oodle1Bitstream \<Rightarrow> u32 \<Rightarrow> Oodle1Decoder \<Rightarrow> fault + (u32 \<times> Oodle1Bitstream \<times> Oodle1Decoder)" where
  "Decode_escape bs alphabetSize d =
     (if highestLearnedSymbol d \<noteq> highestNormalizedSymbol d then
        andThen (Get 2 bs) (\<lambda>(b, bs1).
          if b \<noteq> 0 then
            andThen (Get (highestLearnedSymbol d - highestNormalizedSymbol d) bs1) (\<lambda>(g, bs2).
              let symbolIdx = unat (g + highestNormalizedSymbol d + 1) in
              if symbolIdx < length (symbolOccurrences d) \<and> symbolIdx < length (symbols d) then
                Inr (ucast (symbols d ! symbolIdx), bs2,
                     d\<lparr>symbolOccurrences :=
                          (symbolOccurrences d)[symbolIdx := symbolOccurrences d ! symbolIdx + 2],
                        totalOccurrence := totalOccurrence d + 2\<rparr>)
              else Inl IndexOutOfRange)
          else Decode_learn bs1 alphabetSize d)
      else Decode_learn bs alphabetSize d)"

text \<open>Lines 109 to 141 of \<open>Decode\<close>: one symbol is read from the adapted model.\<close>

definition Decode_symbol ::
  "Oodle1Bitstream \<Rightarrow> u32 \<Rightarrow> Oodle1Decoder \<Rightarrow> fault + (u32 \<times> Oodle1Bitstream \<times> Oodle1Decoder)" where
  "Decode_symbol bs alphabetSize d =
     andThen (Peek Oodle1Decoder_One bs) (\<lambda>(z, bs1).
     andThen (Decode_scan 0 z d) (\<lambda>symbolIdx.
       if symbolIdx + 1 < length (symbolWeights d) \<and> symbolIdx < length (symbolOccurrences d) then
         let w0 = ucast (symbolWeights d ! symbolIdx) :: u32;
             w1 = ucast (symbolWeights d ! (symbolIdx + 1)) :: u32
         in andThen (Consume w0 (w1 - w0) Oodle1Decoder_One bs1) (\<lambda>bs2.
            let d1 = d\<lparr>symbolOccurrences :=
                         (symbolOccurrences d)[symbolIdx := symbolOccurrences d ! symbolIdx + 1],
                       totalOccurrence := totalOccurrence d + 1\<rparr>
            in if symbolIdx \<noteq> 0 then
                 if symbolIdx < length (symbols d1)
                 then Inr (ucast (symbols d1 ! symbolIdx), bs2, d1)
                 else Inl IndexOutOfRange
               else Decode_escape bs2 alphabetSize d1)
       else Inl IndexOutOfRange))"

definition Decode ::
  "Oodle1Bitstream \<Rightarrow> u32 \<Rightarrow> Oodle1Decoder \<Rightarrow> fault + (u32 \<times> Oodle1Bitstream \<times> Oodle1Decoder)" where
  "Decode bs alphabetSize d = andThen (Decode_adapt d) (Decode_symbol bs alphabetSize)"

text \<open>
  A run of one decoder: \<open>Decode\<close> is called again and again, each call with the bitstream
  state and the \<open>alphabetSize\<close> the caller hands it.
\<close>

fun Decode_calls :: "(Oodle1Bitstream \<times> u32) list \<Rightarrow> Oodle1Decoder \<Rightarrow> fault + Oodle1Decoder" where
  "Decode_calls [] d = Inr d"
| "Decode_calls ((bs, alphabetSize) # calls) d =
     andThen (Decode bs alphabetSize d) (\<lambda>(v, bs', d'). Decode_calls calls d')"

text \<open>
  \<open>n\<close> calls of \<open>Decode\<close> on one bitstream, as \<open>Decompress\<close> makes them: each call goes on
  from the bitstream state the call before it left.
\<close>

fun Decode_run ::
  "nat \<Rightarrow> u32 \<Rightarrow> Oodle1Bitstream \<Rightarrow> Oodle1Decoder \<Rightarrow> fault + (Oodle1Bitstream \<times> Oodle1Decoder)" where
  "Decode_run 0 alphabetSize bs d = Inr (bs, d)"
| "Decode_run (Suc n) alphabetSize bs d =
     andThen (Decode bs alphabetSize d) (\<lambda>(v, bs', d'). Decode_run n alphabetSize bs' d')"

section \<open>Oodle1Decompressor (src/Oodle1.cpp)\<close>

text \<open>
  The reference member \<open>bs\<close> is the bitstream argument of the operations below, handed back
  updated.  The \<open>std::array\<close> members are lists; an index outside one is a fault.
\<close>

record Oodle1Decompressor =
  litDecoders :: "Oodle1Decoder list"
  lenDecoders :: "Oodle1Decoder list"
  off1Decoder :: Oodle1Decoder
  off4Decoders :: "Oodle1Decoder list"
  off1024Decoder :: Oodle1Decoder
  windowSize :: u32
  litAlphabetSize :: u32
  offset1AlphabetSize :: u32
  bytesOutput :: u32
  lastRepeatCode :: u32

text \<open>The table, row by row as the header file lays it out.\<close>

definition RepeatLengthTable :: "u32 list" where
  "RepeatLengthTable =
     [ 0,  2,  3,  4,  5,   6,  7,   8] @
     [ 9, 10, 11, 12, 13,  14,  15,  16] @
     [17, 18, 19, 20, 21,  22,  23,  24] @
     [25, 26, 27, 28, 29,  30,  31,  32] @
     [33, 34, 35, 36, 37,  38,  39,  40] @
     [41, 42, 43, 44, 45,  46,  47,  48] @
     [49, 50, 51, 52, 53,  54,  55,  56] @
     [57, 58, 59, 60, 61, 128, 192, 256, 512]"

text \<open>What the constructor leaves: default member initializers, default decoders.\<close>

definition Oodle1Decompressor_new :: Oodle1Decompressor where
  "Oodle1Decompressor_new =
     \<lparr>litDecoders = replicate 4 Oodle1Decoder_new,
      lenDecoders = replicate 65 Oodle1Decoder_new,
      off1Decoder = Oodle1Decoder_new,
      off4Decoders = replicate 256 Oodle1Decoder_new,
      off1024Decoder = Oodle1Decoder_new,
      windowSize = 0x7fffff, litAlphabetSize = 256, offset1AlphabetSize = 0,
      bytesOutput = 0, lastRepeatCode = 0\<rparr>"

text \<open>\<open>for (auto& decoder : decoders) decoder.Initialize(a, u)\<close>.\<close>

primrec Initialize_each :: "u32 \<Rightarrow> u32 \<Rightarrow> Oodle1Decoder list \<Rightarrow> fault + Oodle1Decoder list" where
  "Initialize_each a u [] = Inr []"
| "Initialize_each a u (d # ds) =
     andThen (Oodle1Decoder_Initialize a u d) (\<lambda>d1.
     andThen (Initialize_each a u ds) (\<lambda>ds1. Inr (d1 # ds1)))"

text \<open>The inner loop of lines 155 to 158, from \<open>decoderIdx\<close> on.\<close>

function Initialize_lenGroup ::
  "nat \<Rightarrow> nat \<Rightarrow> u32 \<Rightarrow> Oodle1Decoder list \<Rightarrow> fault + Oodle1Decoder list" where
  "Initialize_lenGroup groupIdx decoderIdx repLens ds =
     (if decoderIdx < 16 then
        let i = groupIdx * 16 + decoderIdx in
        if i < length ds then
          case Oodle1Decoder_Initialize 65 (drop_bit 24 repLens) (ds ! i) of
            Inl e \<Rightarrow> Inl e
          | Inr d \<Rightarrow> Initialize_lenGroup groupIdx (decoderIdx + 1) repLens (ds[i := d])
        else Inl IndexOutOfRange
      else Inr ds)"
  by pat_completeness auto
termination
  by (relation "measure (\<lambda>(g, k, r, ds). 16 - k)") auto

declare Initialize_lenGroup.simps [simp del]

text \<open>The outer loop of lines 154 to 160, from \<open>groupIdx\<close> on; \<open>repLens\<close> is handed back.\<close>

function Initialize_lenGroups ::
  "nat \<Rightarrow> u32 \<Rightarrow> Oodle1Decoder list \<Rightarrow> fault + (u32 \<times> Oodle1Decoder list)" where
  "Initialize_lenGroups groupIdx repLens ds =
     (if groupIdx < 4 then
        case Initialize_lenGroup groupIdx 0 repLens ds of
          Inl e \<Rightarrow> Inl e
        | Inr ds1 \<Rightarrow> Initialize_lenGroups (groupIdx + 1) (push_bit 8 repLens) ds1
      else Inr (repLens, ds))"
  by pat_completeness auto
termination
  by (relation "measure (\<lambda>(g, r, ds). 4 - g)") auto

declare Initialize_lenGroups.simps [simp del]

text \<open>The header is the three words \<open>header[0]\<close>, \<open>header[1]\<close>, \<open>header[2]\<close>.\<close>

definition Oodle1Decompressor_Initialize ::
  "u32 \<times> u32 \<times> u32 \<Rightarrow> Oodle1Decompressor \<Rightarrow> fault + Oodle1Decompressor" where
  "Oodle1Decompressor_Initialize header dc =
     (case header of (header0, header1, header2) \<Rightarrow>
      let wS = drop_bit 9 header0;
          lAS = header0 AND 0x1FF;
          uniqueLitCount = header1 AND 0x1FF
      in andThen (Initialize_each lAS uniqueLitCount (litDecoders dc)) (\<lambda>lits.
         andThen (Initialize_lenGroups 0 header2 (lenDecoders dc)) (\<lambda>(repLens, lens).
         if length lens \<le> 64 then Inl IndexOutOfRange else
         andThen (Oodle1Decoder_Initialize 65 (drop_bit 24 repLens) (lens ! 64)) (\<lambda>len64.
         let o1AS = min 4 (wS + 1);
             offset4AlphabetSize = min 256 (wS div 4 + 1);
             offset1024AlphabetSize = wS div 1024 + 1;
             largest1KOffset = drop_bit 19 header1
         in andThen (Oodle1Decoder_Initialize o1AS o1AS (off1Decoder dc)) (\<lambda>o1.
            andThen (Initialize_each offset4AlphabetSize offset4AlphabetSize (off4Decoders dc))
              (\<lambda>o4s.
            andThen (Oodle1Decoder_Initialize offset1024AlphabetSize (largest1KOffset + 1)
                       (off1024Decoder dc)) (\<lambda>o1024.
            Inr (dc\<lparr>windowSize := wS, litAlphabetSize := lAS,
                    litDecoders := lits, lenDecoders := lens[64 := len64],
                    offset1AlphabetSize := o1AS, off1Decoder := o1,
                    off4Decoders := o4s, off1024Decoder := o1024\<rparr>))))))))"

text \<open>
  The caller's buffer is a byte list; a pointer into it is its position, an integer so that
  \<open>output - offset\<close> can lie before the buffer.  Reading or writing outside it is a fault.
\<close>

function Repeat :: "u8 list \<Rightarrow> int \<Rightarrow> int \<Rightarrow> u32 \<Rightarrow> fault + u8 list" where
  "Repeat mem outp inp len =
     (if len \<noteq> 0 then
        if 0 \<le> inp \<and> inp < int (length mem) \<and> 0 \<le> outp \<and> outp < int (length mem)
        then Repeat (mem[nat outp := mem ! nat inp]) (outp + 1) (inp + 1) (len - 1)
        else Inl IndexOutOfRange
      else Inr mem)"
  by pat_completeness auto
termination
  by (relation "measure (\<lambda>(mem, outp, inp, len). unat len)") (auto simp: unat_pred_less)

declare Repeat.simps [simp del]

text \<open>Lines 194 to 198 of \<open>Decompress\<close>: the three decodes that make up the offset.\<close>

definition Decompress_offset ::
  "Oodle1Bitstream \<Rightarrow> Oodle1Decompressor \<Rightarrow> fault + (u32 \<times> Oodle1Bitstream \<times> Oodle1Decompressor)" where
  "Decompress_offset bs dc =
     (let effectiveWindow = min (windowSize dc) (bytesOutput dc) in
      andThen (Decode bs (offset1AlphabetSize dc) (off1Decoder dc)) (\<lambda>(v1, bs1, o1).
      let off1 = v1 + 1 in
      andThen (Decode bs1 (effectiveWindow div 1024 + 1) (off1024Decoder dc)) (\<lambda>(off1k, bs2, o1024).
      if length (off4Decoders dc) \<le> unat off1k then Inl IndexOutOfRange else
      andThen (Decode bs2 (min 256 (effectiveWindow div 4 + 1)) (off4Decoders dc ! unat off1k))
        (\<lambda>(off4, bs3, o4).
      Inr (off1k * 1024 + off4 * 4 + off1, bs3,
           dc\<lparr>off1Decoder := o1, off1024Decoder := o1024,
              off4Decoders := (off4Decoders dc)[unat off1k := o4]\<rparr>)))))"

text \<open>Lines 193 to 201 of \<open>Decompress\<close>: a back-reference of length code \<open>lenCode\<close>.\<close>

definition Decompress_repeat ::
  "u32 \<Rightarrow> Oodle1Bitstream \<Rightarrow> u8 list \<Rightarrow> nat \<Rightarrow> Oodle1Decompressor \<Rightarrow>
     fault + (u32 \<times> Oodle1Bitstream \<times> u8 list \<times> Oodle1Decompressor)" where
  "Decompress_repeat lenCode bs mem out dc =
     (if length RepeatLengthTable \<le> unat lenCode then Inl IndexOutOfRange else
      let len = RepeatLengthTable ! unat lenCode in
      andThen (Decompress_offset bs dc) (\<lambda>(offset, bs1, dc1).
      andThen (Repeat mem (int out) (int out - int (unat offset)) len) (\<lambda>mem1.
      Inr (len, bs1, mem1, dc1\<lparr>bytesOutput := bytesOutput dc1 + len\<rparr>))))"

text \<open>Lines 188 to 191 of \<open>Decompress\<close>: a literal.\<close>

definition Decompress_literal ::
  "Oodle1Bitstream \<Rightarrow> u8 list \<Rightarrow> nat \<Rightarrow> Oodle1Decompressor \<Rightarrow>
     fault + (u32 \<times> Oodle1Bitstream \<times> u8 list \<times> Oodle1Decompressor)" where
  "Decompress_literal bs mem out dc =
     (let k = unat (bytesOutput dc AND 0x03) in
      if length (litDecoders dc) \<le> k then Inl IndexOutOfRange else
      andThen (Decode bs (litAlphabetSize dc) (litDecoders dc ! k)) (\<lambda>(lit, bs1, litD).
      if length mem \<le> out then Inl IndexOutOfRange else
      Inr (1, bs1, mem[out := ucast lit],
           dc\<lparr>litDecoders := (litDecoders dc)[k := litD],
              bytesOutput := bytesOutput dc + 1\<rparr>)))"

text \<open>
  \<open>Decompress(output)\<close>, with \<open>output\<close> at position \<open>out\<close> of the buffer \<open>mem\<close>.  The result
  is the return value, the bitstream, the buffer and the decompressor.
\<close>

definition Decompress ::
  "Oodle1Bitstream \<Rightarrow> u8 list \<Rightarrow> nat \<Rightarrow> Oodle1Decompressor \<Rightarrow>
     fault + (u32 \<times> Oodle1Bitstream \<times> u8 list \<times> Oodle1Decompressor)" where
  "Decompress bs mem out dc0 =
     (if length (lenDecoders dc0) \<le> unat (lastRepeatCode dc0) then Inl IndexOutOfRange else
      andThen (Decode bs 65 (lenDecoders dc0 ! unat (lastRepeatCode dc0))) (\<lambda>(lenCode, bs1, lenD).
      let dc = dc0\<lparr>lenDecoders := (lenDecoders dc0)[unat (lastRepeatCode dc0) := lenD],
                   lastRepeatCode := lenCode\<rparr>
      in if lenCode = 0 then Decompress_literal bs1 mem out dc
         else Decompress_repeat lenCode bs1 mem out dc))"

text \<open>
  A run of the decompressor: \<open>Decompress\<close> is called again and again, each call with the
  bitstream state, the buffer and the position the caller hands it.
\<close>

fun Decompress_calls ::
  "(Oodle1Bitstream \<times> u8 list \<times> nat) list \<Rightarrow> Oodle1Decompressor \<Rightarrow> fault + Oodle1Decompressor" where
  "Decompress_calls [] dc = Inr dc"
| "Decompress_calls ((bs, mem, out) # calls) dc =
     (case Decompress bs mem out dc of
        Inl e \<Rightarrow> Inl e
      | Inr (n, bs1, mem1, dc1) \<Rightarrow> Decompress_calls calls dc1)"

section \<open>Invariants\<close>

text \<open>Every stored symbol, read back as a \<open>uint32_t\<close>, is below \<open>alphabetSize\<close>.\<close>

definition symbols_below :: "u32 \<Rightarrow> Oodle1Decoder \<Rightarrow> bool" where
  "symbols_below alphabetSize d \<longleftrightarrow> list_all (\<lambda>s. ucast s < alphabetSize) (symbols d)"

text \<open>
  The length decoders are 65, \<open>lastRepeatCode\<close> indexes one of them, and each holds only
  symbols below 65.
\<close>

definition lenDecoders_ok :: "Oodle1Decompressor \<Rightarrow> bool" where
  "lenDecoders_ok dc \<longleftrightarrow>
     length (lenDecoders dc) = 65 \<and> lastRepeatCode dc < 65
     \<and> list_all (symbols_below 65) (lenDecoders dc)"

text \<open>The occurrence counts of a table, added up as natural numbers.\<close>

definition occ_sum :: "u16 list \<Rightarrow> nat" where
  "occ_sum xs = sum_list (map unat xs)"

text \<open>
  Conservation: \<open>highestLearnedSymbol\<close> indexes the occurrence table and
  \<open>totalOccurrence\<close> is the sum of the occurrences of the slots \<open>0\<close> to
  \<open>highestLearnedSymbol\<close>.
\<close>

definition conserved :: "Oodle1Decoder \<Rightarrow> bool" where
  "conserved d \<longleftrightarrow>
     unat (highestLearnedSymbol d) < length (symbolOccurrences d)
     \<and> unat (totalOccurrence d)
         = sum_list (map unat (take (unat (highestLearnedSymbol d) + 1) (symbolOccurrences d)))"

text \<open>
  Weight monotonicity in the words of the specification: \<open>weights[i] <= weights[i+1]\<close> for
  every \<open>i <= highestNormalizedSymbol\<close>, so that each such \<open>i\<close> has a slot \<open>i + 1\<close> in the
  table, and \<open>weights[i] == One\<close> for every slot \<open>i\<close> of the table above
  \<open>highestNormalizedSymbol\<close>.
\<close>

definition weights_ok_claimed :: "Oodle1Decoder \<Rightarrow> bool" where
  "weights_ok_claimed d \<longleftrightarrow>
     list_all (\<lambda>i. i + 1 < length (symbolWeights d)
                  \<and> symbolWeights d ! i \<le> symbolWeights d ! (i + 1))
       [0..<unat (highestNormalizedSymbol d) + 1]
     \<and> list_all (\<lambda>i. unat (highestNormalizedSymbol d) < i \<longrightarrow> symbolWeights d ! i = 0x4000)
         [0..<length (symbolWeights d)]"

text \<open>
  Weight monotonicity inside the table: the comparison \<open>weights[i] <= weights[i+1]\<close> is
  asked only of the pairs of slots the table has, which leaves out
  \<open>i = highestNormalizedSymbol\<close> when that is the last slot.
\<close>

definition weights_ok :: "Oodle1Decoder \<Rightarrow> bool" where
  "weights_ok d \<longleftrightarrow>
     list_all (\<lambda>i. i \<le> unat (highestNormalizedSymbol d)
                  \<longrightarrow> symbolWeights d ! i \<le> symbolWeights d ! (i + 1))
       [0..<length (symbolWeights d) - 1]
     \<and> list_all (\<lambda>i. unat (highestNormalizedSymbol d) < i \<longrightarrow> symbolWeights d ! i = 0x4000)
         [0..<length (symbolWeights d)]"

text \<open>
  The three vectors have one length, which a \<open>uint32_t\<close> can hold,
  \<open>highestLearnedSymbol\<close> indexes them, the slots above it have no occurrences, and
  \<open>totalOccurrence\<close> is the sum of all occurrences.
\<close>

definition occ_inv :: "Oodle1Decoder \<Rightarrow> bool" where
  "occ_inv d \<longleftrightarrow>
     length (symbols d) = length (symbolOccurrences d)
     \<and> length (symbolWeights d) = length (symbolOccurrences d)
     \<and> length (symbolOccurrences d) < 4294967296
     \<and> unat (highestLearnedSymbol d) < length (symbolOccurrences d)
     \<and> (\<forall>i. unat (highestLearnedSymbol d) < i \<and> i < length (symbolOccurrences d)
            \<longrightarrow> symbolOccurrences d ! i = 0)
     \<and> unat (totalOccurrence d) = occ_sum (symbolOccurrences d)"

text \<open>
  The thresholds stay small: \<open>Initialize\<close> caps \<open>decayThreshold\<close> at 15160 and
  \<open>renormInterval\<close> at 7548, so that \<open>nextRenormWeight\<close> never exceeds 22708.
\<close>

definition sched_inv :: "Oodle1Decoder \<Rightarrow> bool" where
  "sched_inv d \<longleftrightarrow>
     unat (decayThreshold d) \<le> 15160 \<and> unat (renormInterval d) \<le> 7548
     \<and> unat (rapidRenormInterval d) \<le> 7548 \<and> unat (nextRenormWeight d) \<le> 22708"

text \<open>
  What holds of a decoder between two calls of \<open>Decode\<close>.  One call adds at most 3 to
  \<open>totalOccurrence\<close> after the comparison with \<open>nextRenormWeight\<close>, so no occurrence
  count ever reaches \<open>2^16\<close>.
\<close>

definition Decoder_inv :: "Oodle1Decoder \<Rightarrow> bool" where
  "Decoder_inv d \<longleftrightarrow>
     occ_inv d \<and> sched_inv d \<and> weights_ok d
     \<and> unat (highestNormalizedSymbol d) \<le> unat (highestLearnedSymbol d)
     \<and> unat (totalOccurrence d) \<le> unat (nextRenormWeight d) + 3"

text \<open>What the two passes of \<open>Decay\<close>, and what the symbol part of \<open>Decode\<close>, leave alone.\<close>

definition Decay_frame :: "Oodle1Decoder \<Rightarrow> Oodle1Decoder \<Rightarrow> bool" where
  "Decay_frame d d' \<longleftrightarrow>
     usedSymbolCount d' = usedSymbolCount d \<and> symbolWeights d' = symbolWeights d
     \<and> highestNormalizedSymbol d' = highestNormalizedSymbol d
     \<and> nextRenormWeight d' = nextRenormWeight d \<and> decayThreshold d' = decayThreshold d
     \<and> rapidRenormInterval d' = rapidRenormInterval d \<and> renormInterval d' = renormInterval d
     \<and> length (symbolOccurrences d') = length (symbolOccurrences d)
     \<and> length (symbols d') = length (symbols d)"

definition same_schedule :: "Oodle1Decoder \<Rightarrow> Oodle1Decoder \<Rightarrow> bool" where
  "same_schedule d d' \<longleftrightarrow>
     usedSymbolCount d' = usedSymbolCount d
     \<and> highestNormalizedSymbol d' = highestNormalizedSymbol d
     \<and> nextRenormWeight d' = nextRenormWeight d \<and> decayThreshold d' = decayThreshold d
     \<and> rapidRenormInterval d' = rapidRenormInterval d \<and> renormInterval d' = renormInterval d"

definition Decode_frame :: "Oodle1Decoder \<Rightarrow> Oodle1Decoder \<Rightarrow> bool" where
  "Decode_frame d d' \<longleftrightarrow>
     same_schedule d d' \<and> symbolWeights d' = symbolWeights d
     \<and> unat (highestLearnedSymbol d) \<le> unat (highestLearnedSymbol d')
     \<and> unat (totalOccurrence d') \<le> unat (totalOccurrence d) + 3"

section \<open>States after initialisation\<close>

text \<open>
  What \<open>Initialize(alphabetSize, uniqueSymbols)\<close> makes of a decoder that was just
  constructed.
\<close>

definition Oodle1Decoder_fresh :: "u32 \<Rightarrow> u32 \<Rightarrow> Oodle1Decoder" where
  "Oodle1Decoder_fresh alphabetSize uniqueSymbols =
     (let n = unat (alphabetSize + 2);
          dT = max 256 (min ((alphabetSize - 1) * 32) 15160)
      in \<lparr>usedSymbolCount = uniqueSymbols, symbols = replicate n 0,
          symbolWeights = (replicate n 0x4000)[0 := 0],
          symbolOccurrences = (replicate n 0)[0 := 4],
          totalOccurrence = 4, highestLearnedSymbol = 0, highestNormalizedSymbol = 0,
          nextRenormWeight = 8, decayThreshold = dT, rapidRenormInterval = 4,
          renormInterval = max 128 (min ((alphabetSize - 1) * 2) (dT div 2 - 32))\<rparr>)"

text \<open>
  The \<open>uniqueSymbols\<close> argument that \<open>Oodle1Decompressor::Initialize\<close> hands to the length
  decoder \<open>i\<close>: the top byte of \<open>header[2]\<close> shifted left by 8 once per group of 16 passed,
  and the top byte after all four shifts, which is 0, for the decoder 64.
\<close>

definition lenUnique :: "u32 \<Rightarrow> nat \<Rightarrow> u32" where
  "lenUnique header2 i = (if i < 64 then drop_bit 24 (push_bit (8 * (i div 16)) header2) else 0)"

section \<open>Concrete states used in the examples\<close>

text \<open>
  A bitstream over sixteen zero bytes, and a decoder over an alphabet of four symbols (its
  vectors have six slots) that has not been renormalised yet.
\<close>

abbreviation (input) zero_stream :: "nat \<Rightarrow> u32 \<Rightarrow> Oodle1Bitstream" where
  "zero_stream c m \<equiv> \<lparr>input = replicate 16 0, cursor = c, sr = 0, srModulus = m, lsb = 0\<rparr>"

abbreviation (input) small_decoder :: "u32 \<Rightarrow> u16 list \<Rightarrow> u32 \<Rightarrow> u32 \<Rightarrow> Oodle1Decoder" where
  "small_decoder u occs tot hls \<equiv>
     \<lparr>usedSymbolCount = u, symbols = [0, 0, 0, 0, 0, 0],
      symbolWeights = [0, 0x4000, 0x4000, 0x4000, 0x4000, 0x4000],
      symbolOccurrences = occs,
      totalOccurrence = tot, highestLearnedSymbol = hls, highestNormalizedSymbol = 0,
      nextRenormWeight = 8, decayThreshold = 256, rapidRenormInterval = 4, renormInterval = 128\<rparr>"

text \<open>
  The decoder over four symbols after three calls of \<open>Decode\<close> on the zero bytes: the third
  call renormalised it.
\<close>

abbreviation (input) renormalized_decoder :: Oodle1Decoder where
  "renormalized_decoder \<equiv>
     \<lparr>usedSymbolCount = 4, symbols = [0, 0, 0, 0, 0, 0],
      symbolWeights = [0, 9830, 13106, 0x4000, 0x4000, 0x4000],
      symbolOccurrences = [7, 2, 2, 2, 0, 0],
      totalOccurrence = 13, highestLearnedSymbol = 3, highestNormalizedSymbol = 2,
      nextRenormWeight = 18, decayThreshold = 256, rapidRenormInterval = 8, renormInterval = 128\<rparr>"

text \<open>
  Decoders with \<open>usedSymbolCount = 8\<close> that have stored only zero symbols, and the
  bitstream over the bytes \<open>00 00 E0 00\<close> and twelve bytes \<open>55\<close>.
\<close>

abbreviation (input) wide_decoder ::
  "u16 list \<Rightarrow> u16 list \<Rightarrow> u32 \<Rightarrow> u32 \<Rightarrow> u32 \<Rightarrow> u32 \<Rightarrow> u32 \<Rightarrow> Oodle1Decoder" where
  "wide_decoder ws occs tot hls hlsn nrw rri \<equiv>
     \<lparr>usedSymbolCount = 8, symbols = replicate (length ws) 0,
      symbolWeights = ws, symbolOccurrences = occs,
      totalOccurrence = tot, highestLearnedSymbol = hls, highestNormalizedSymbol = hlsn,
      nextRenormWeight = nrw, decayThreshold = 256, rapidRenormInterval = rri, renormInterval = 128\<rparr>"

abbreviation (input) e0_stream :: "nat \<Rightarrow> u32 \<Rightarrow> u32 \<Rightarrow> u8 \<Rightarrow> Oodle1Bitstream" where
  "e0_stream c s m l \<equiv>
     \<lparr>input = [0x00, 0x00, 0xE0, 0x00] @ replicate 12 0x55, cursor = c, sr = s, srModulus = m,
      lsb = l\<rparr>"

text \<open>A decoder in the middle of \<open>Decay\<close>: slot 1 is down to one occurrence, slot 2 is the top.\<close>

abbreviation (input) two_slots :: Oodle1Decoder where
  "two_slots \<equiv>
     \<lparr>usedSymbolCount = 4, symbols = [0, 10, 20, 0, 0, 0],
      symbolWeights = [0, 0x4000, 0x4000, 0x4000, 0x4000, 0x4000],
      symbolOccurrences = [2, 1, 5, 0, 0, 0],
      totalOccurrence = 2, highestLearnedSymbol = 2, highestNormalizedSymbol = 2,
      nextRenormWeight = 300, decayThreshold = 256, rapidRenormInterval = 64, renormInterval = 128\<rparr>"

text \<open>
  A decompressor that was just constructed and initialised from the header words
  \<open>4, 4, 0x01020304\<close> (window size 0, four literals), the bitstream over the byte \<open>0x10\<close>
  and fifteen zero bytes, the states its first \<open>Decompress\<close> goes through, and a buffer of
  ten bytes.
\<close>

abbreviation (input) ex_header :: "u32 \<times> u32 \<times> u32" where
  "ex_header \<equiv> (0x04, 0x04, 0x01020304)"

abbreviation (input) ex_dc :: Oodle1Decompressor where
  "ex_dc \<equiv> projr (Oodle1Decompressor_Initialize ex_header Oodle1Decompressor_new)"

abbreviation (input) ex_stream :: "nat \<Rightarrow> u32 \<Rightarrow> u32 \<Rightarrow> Oodle1Bitstream" where
  "ex_stream c s m \<equiv> \<lparr>input = 0x10 # replicate 15 0, cursor = c, sr = s, srModulus = m, lsb = 0\<rparr>"

abbreviation (input) ex_lenD :: Oodle1Decoder where
  "ex_lenD \<equiv> (Oodle1Decoder_fresh 65 1)
     \<lparr>symbols := (replicate 67 0)[1 := 4], symbolOccurrences := (replicate 67 0)[1 := 2],
      totalOccurrence := 2, highestLearnedSymbol := 1\<rparr>"

abbreviation (input) ex_offD :: Oodle1Decoder where
  "ex_offD \<equiv>
     \<lparr>usedSymbolCount = 1, symbols = [0, 0, 0], symbolWeights = [0, 0x4000, 0x4000],
      symbolOccurrences = [0, 2, 0], totalOccurrence = 2, highestLearnedSymbol = 1,
      highestNormalizedSymbol = 0, nextRenormWeight = 8, decayThreshold = 256,
      rapidRenormInterval = 4, renormInterval = 128\<rparr>"

abbreviation (input) ex_mem :: "u8 list" where
  "ex_mem \<equiv> [1, 2, 3, 4, 5, 6, 7, 8, 9, 10]"

abbreviation (input) ex_dc1 :: Oodle1Decompressor where
  "ex_dc1 \<equiv> ex_dc\<lparr>lenDecoders := (lenDecoders ex_dc)[0 := ex_lenD], lastRepeatCode := 4\<rparr>"

abbreviation (input) ex_dc2 :: Oodle1Decompressor where
  "ex_dc2 \<equiv> ex_dc1\<lparr>off1Decoder := ex_offD, off1024Decoder := ex_offD,
                     off4Decoders := (off4Decoders ex_dc1)[0 := ex_offD]\<rparr>"

section \<open>Properties of the bitstream\<close>

text \<open>
  C8.  For every bitstream state and every denominator, \<open>Get one\<close> is \<open>Peek one\<close> followed by
  \<open>Consume z 1 one\<close> on the value \<open>z\<close> that \<open>Peek\<close> returned: the same \<open>z\<close> comes back and the
  final bitstream state is the same (Consume's test \<open>minZ < one - spanZ\<close> is Get's
  \<open>z < one - 1\<close>, so the top slot \<open>z = one - 1\<close> keeps \<open>M - z * scale\<close>); a run that stops in
  \<open>Peek\<close> stops \<open>Get\<close> likewise.
\<close>

theorem Get_is_Peek_then_Consume:
  "Get one bs =
     andThen (Peek one bs) (\<lambda>(z, bs1). andThen (Consume z 1 one bs1) (\<lambda>bs2. Inr (z, bs2)))"
  by (cases "Ingest bs") (simp_all add: Get_def Peek_def Consume_def Let_def)

lemma Get_bound: "Get one bs = Inr (z, bs') \<Longrightarrow> one \<noteq> 0 \<and> z \<le> one - 1"
  by (auto simp: Get_def andThen_eq_Inr Let_def split: if_splits)

section \<open>Properties of the decoder\<close>

lemma Oodle1Decoder_Initialize_eq_Inr:
  "Oodle1Decoder_Initialize alphabetSize uniqueSymbols d = Inr d' \<Longrightarrow>
     0 < unat (alphabetSize + 2) \<and>
     d' = d\<lparr>usedSymbolCount := uniqueSymbols,
            symbols := resize (unat (alphabetSize + 2)) (symbols d),
            symbolWeights := (replicate (unat (alphabetSize + 2)) (ucast Oodle1Decoder_One))[0 := 0],
            symbolOccurrences := (resize (unat (alphabetSize + 2)) (symbolOccurrences d))[0 := 4],
            totalOccurrence := 4,
            nextRenormWeight := 8,
            decayThreshold := max 256 (min ((alphabetSize - 1) * 32) 15160),
            rapidRenormInterval := 4,
            renormInterval := max 128 (min ((alphabetSize - 1) * 2)
                (max 256 (min ((alphabetSize - 1) * 32) 15160) div 2 - 32))\<rparr>"
  by (auto simp: Oodle1Decoder_Initialize_def Let_def split: if_splits)

lemma length_resize [simp]: "length (resize n xs) = n"
  by (simp add: resize_def)

lemma nth_0_update_0: "k < length xs \<Longrightarrow> xs[k := a, 0 := b] ! 0 = b"
  by (cases xs) (simp_all split: nat.splits)

text \<open>
  C9, as the code has it.  \<open>Initialize\<close> sets \<open>occurrences[0] = 4\<close>, \<open>totalOccurrence = 4\<close>,
  \<open>NRW = 8\<close> and \<open>RRI = 4\<close>, and it leaves \<open>HLS\<close> and \<open>HLSN\<close> as they were: they are zero
  after \<open>Initialize\<close> on a decoder that was just constructed, whose member initializers set
  them to zero.
\<close>

theorem Initialize_sets_fields:
  assumes "Oodle1Decoder_Initialize alphabetSize uniqueSymbols d = Inr d'"
  shows "symbolOccurrences d' ! 0 = 4 \<and> totalOccurrence d' = 4
         \<and> nextRenormWeight d' = 8 \<and> rapidRenormInterval d' = 4
         \<and> highestLearnedSymbol d' = highestLearnedSymbol d
         \<and> highestNormalizedSymbol d' = highestNormalizedSymbol d
         \<and> (d = Oodle1Decoder_new \<longrightarrow> highestLearnedSymbol d' = 0 \<and> highestNormalizedSymbol d' = 0)"
  using Oodle1Decoder_Initialize_eq_Inr [OF assms]
  by (auto simp: Oodle1Decoder_new_def)

theorem Initialize_sets_fields_witness:
  "Oodle1Decoder_Initialize 4 4 Oodle1Decoder_new = Inr (small_decoder 4 [4, 0, 0, 0, 0, 0] 4 0)
   \<and> symbolOccurrences (small_decoder 4 [4, 0, 0, 0, 0, 0] 4 0) ! 0 = 4
   \<and> highestLearnedSymbol (small_decoder 4 [4, 0, 0, 0, 0, 0] 4 0) = 0"
proof -
  have e: "Oodle1Decoder_Initialize 4 4 Oodle1Decoder_new = Inr (small_decoder 4 [4, 0, 0, 0, 0, 0] 4 0)"
    by code_simp
  from Initialize_sets_fields [OF e] show ?thesis
    using e by simp
qed

text \<open>
  C9 as stated fails for a decoder that has decoded a symbol: after one \<open>Decode\<close> over the
  zero bitstream \<open>HLS\<close> is 1, and a second \<open>Initialize\<close> leaves it at 1.
\<close>

theorem Initialize_again_keeps_learned:
  "Oodle1Bitstream_new (replicate 16 0) = Inr (zero_stream 1 0x80)
   \<and> Oodle1Decoder_Initialize 4 4 Oodle1Decoder_new = Inr (small_decoder 4 [4, 0, 0, 0, 0, 0] 4 0)
   \<and> Decode (zero_stream 1 0x80) 4 (small_decoder 4 [4, 0, 0, 0, 0, 0] 4 0)
       = Inr (0, zero_stream 4 0x20000000, small_decoder 4 [5, 2, 0, 0, 0, 0] 7 1)
   \<and> Oodle1Decoder_Initialize 4 4 (small_decoder 4 [5, 2, 0, 0, 0, 0] 7 1)
       = Inr (small_decoder 4 [4, 2, 0, 0, 0, 0] 4 1)
   \<and> highestLearnedSymbol (small_decoder 4 [4, 2, 0, 0, 0, 0] 4 1) \<noteq> 0"
  by code_simp

text \<open>
  C4, as the code has it.  In the eviction loop of \<open>Decay\<close>, at a slot \<open>idx\<close> below \<open>HLS\<close>
  whose occurrence is at most 1, the occurrence and the symbol of slot \<open>HLS\<close> are written to
  slot \<open>idx\<close>, the occurrence of slot \<open>HLS\<close> is set to 0, its symbol stays, \<open>HLS\<close> is
  decremented, and the loop goes on at \<open>idx\<close>.
\<close>

theorem Decay_while_evicts:
  assumes "idx < unat (highestLearnedSymbol d)"
    and "unat (highestLearnedSymbol d) < length (symbolOccurrences d)"
    and "unat (highestLearnedSymbol d) < length (symbols d)"
    and "symbolOccurrences d ! idx \<le> 1"
  shows "Decay_while idx d = Decay_while idx (Decay_evict idx d)
    \<and> symbolOccurrences (Decay_evict idx d) ! idx
        = symbolOccurrences d ! unat (highestLearnedSymbol d)
    \<and> symbolOccurrences (Decay_evict idx d) ! unat (highestLearnedSymbol d) = 0
    \<and> symbols (Decay_evict idx d) ! idx = symbols d ! unat (highestLearnedSymbol d)
    \<and> symbols (Decay_evict idx d) ! unat (highestLearnedSymbol d)
        = symbols d ! unat (highestLearnedSymbol d)
    \<and> highestLearnedSymbol (Decay_evict idx d) = highestLearnedSymbol d - 1"
proof -
  have "Decay_while idx d = Decay_while idx (Decay_evict idx d)"
    using assms by (subst Decay_while.simps) (simp add: Let_def)
  then show ?thesis
    using assms by (simp add: Decay_evict_def Let_def)
qed

theorem Decay_while_evicts_witness:
  "Decay_while 1 two_slots = Decay_while 1 (Decay_evict 1 two_slots)
   \<and> symbolOccurrences (Decay_evict 1 two_slots) = [2, 5, 0, 0, 0, 0]
   \<and> symbols (Decay_evict 1 two_slots) = [0, 20, 20, 0, 0, 0]
   \<and> highestLearnedSymbol (Decay_evict 1 two_slots) = 1"
  using Decay_while_evicts [of 1 two_slots]
  by (simp add: Decay_evict_def)

text \<open>
  C4 as stated fails: slot 1 holds occurrence 1 and symbol 10, slot 2 is the top.  After the
  loop the old top slot holds occurrence 0 and its own symbol 20, not slot 1's former
  occurrence and symbol.
\<close>

theorem Decay_while_no_swap:
  "Decay_while 1 two_slots =
     Inr (two_slots\<lparr>symbolOccurrences := [2, 5, 0, 0, 0, 0], symbols := [0, 20, 20, 0, 0, 0],
                     highestLearnedSymbol := 1\<rparr>)
   \<and> symbolOccurrences two_slots ! 1 = 1 \<and> symbols two_slots ! 1 = 10"
  by code_simp

lemma Decode_learn_result:
  assumes "Decode_learn bs a d = Inr (v, bs', d')"
  shows "highestLearnedSymbol d' = highestLearnedSymbol d + 1 \<and> usedSymbolCount d' = usedSymbolCount d
       \<and> (highestLearnedSymbol d' = usedSymbolCount d' \<longrightarrow> symbolOccurrences d' ! 0 = 0)"
  using assms
  by (auto simp: Decode_learn_def andThen_eq_Inr Let_def nth_0_update_0 split: if_splits)

lemma Decode_escape_result:
  assumes "Decode_escape bs a d = Inr (v, bs', d')"
  shows "usedSymbolCount d' = usedSymbolCount d \<and>
     (highestLearnedSymbol d' = highestLearnedSymbol d \<or>
      (highestLearnedSymbol d' = highestLearnedSymbol d + 1
       \<and> (highestLearnedSymbol d' = usedSymbolCount d' \<longrightarrow> symbolOccurrences d' ! 0 = 0)))"
  using assms
  by (auto simp: Decode_escape_def andThen_eq_Inr Let_def split: if_splits dest!: Decode_learn_result)

lemma Decode_symbol_result:
  assumes "Decode_symbol bs a d = Inr (v, bs', d')"
  shows "usedSymbolCount d' = usedSymbolCount d \<and>
     (highestLearnedSymbol d' = highestLearnedSymbol d \<or>
      (highestLearnedSymbol d' = highestLearnedSymbol d + 1
       \<and> (highestLearnedSymbol d' = usedSymbolCount d' \<longrightarrow> symbolOccurrences d' ! 0 = 0)))"
  using assms
  by (auto simp: Decode_symbol_def andThen_eq_Inr Let_def split: if_splits dest!: Decode_escape_result)

text \<open>
  C5, as the code has it.  After its Decay and Renormalize step, a \<open>Decode\<close> either leaves
  \<open>HLS\<close> as it is or learns one symbol and raises \<open>HLS\<close> by one; when that makes \<open>HLS\<close> equal
  to \<open>usedSymbolCount\<close>, the call returns with \<open>occurrences[0] = 0\<close>.
\<close>

theorem Decode_retires_escape:
  assumes "Decode bs alphabetSize d = Inr (v, bs', d')"
  shows "\<exists>d1. Decode_adapt d = Inr d1 \<and> usedSymbolCount d' = usedSymbolCount d1 \<and>
     (highestLearnedSymbol d' = highestLearnedSymbol d1 \<or>
      (highestLearnedSymbol d' = highestLearnedSymbol d1 + 1
       \<and> (highestLearnedSymbol d' = usedSymbolCount d' \<longrightarrow> symbolOccurrences d' ! 0 = 0)))"
  using assms
  by (auto simp: Decode_def andThen_eq_Inr dest!: Decode_symbol_result)

theorem Decode_retires_escape_witness:
  "Decode (zero_stream 1 0x80) 4 (small_decoder 1 [4, 0, 0, 0, 0, 0] 4 0)
       = Inr (0, zero_stream 4 0x20000000, small_decoder 1 [0, 2, 0, 0, 0, 0] 2 1)
   \<and> Decode_adapt (small_decoder 1 [4, 0, 0, 0, 0, 0] 4 0) = Inr (small_decoder 1 [4, 0, 0, 0, 0, 0] 4 0)
   \<and> highestLearnedSymbol (small_decoder 1 [0, 2, 0, 0, 0, 0] 2 1)
       = usedSymbolCount (small_decoder 1 [0, 2, 0, 0, 0, 0] 2 1)
   \<and> symbolOccurrences (small_decoder 1 [0, 2, 0, 0, 0, 0] 2 1) ! 0 = 0"
proof -
  have e: "Decode (zero_stream 1 0x80) 4 (small_decoder 1 [4, 0, 0, 0, 0, 0] 4 0)
       = Inr (0, zero_stream 4 0x20000000, small_decoder 1 [0, 2, 0, 0, 0, 0] 2 1)"
    by code_simp
  have a: "Decode_adapt (small_decoder 1 [4, 0, 0, 0, 0, 0] 4 0)
       = Inr (small_decoder 1 [4, 0, 0, 0, 0, 0] 4 0)"
    by code_simp
  from Decode_retires_escape [OF e] show ?thesis
    using e a by simp
qed

text \<open>
  C5 as stated fails over the zero bitstream with \<open>usedSymbolCount = 1\<close>: the first \<open>Decode\<close>
  learns a symbol, \<open>HLS = 1 = usedSymbolCount\<close> and \<open>occurrences[0] = 0\<close>; the second, with no
  Decay in between (\<open>totalOccurrence = 2 < NRW = 8\<close>), hits slot 0 again, so
  \<open>occurrences[0] = 1\<close>, and learns another symbol, so \<open>HLS = 2 > usedSymbolCount\<close>.
\<close>

theorem Decode_exceeds_usedSymbolCount:
  "Oodle1Bitstream_new (replicate 16 0) = Inr (zero_stream 1 0x80)
   \<and> Oodle1Decoder_Initialize 4 1 Oodle1Decoder_new = Inr (small_decoder 1 [4, 0, 0, 0, 0, 0] 4 0)
   \<and> Decode (zero_stream 1 0x80) 4 (small_decoder 1 [4, 0, 0, 0, 0, 0] 4 0)
       = Inr (0, zero_stream 4 0x20000000, small_decoder 1 [0, 2, 0, 0, 0, 0] 2 1)
   \<and> Decode (zero_stream 4 0x20000000) 4 (small_decoder 1 [0, 2, 0, 0, 0, 0] 2 1)
       = Inr (0, zero_stream 4 0x4000000, small_decoder 1 [1, 2, 2, 0, 0, 0] 5 2)
   \<and> \<not> highestLearnedSymbol (small_decoder 1 [1, 2, 2, 0, 0, 0] 5 2)
         \<le> usedSymbolCount (small_decoder 1 [1, 2, 2, 0, 0, 0] 5 2)
   \<and> symbolOccurrences (small_decoder 1 [1, 2, 2, 0, 0, 0] 5 2) ! 0 \<noteq> 0"
  by code_simp

section \<open>Properties of the decompressor\<close>

lemma RepeatLengthTable_codes:
  "\<forall>c \<in> set [1..<65]. RepeatLengthTable ! c =
      (if c \<le> 60 then of_nat c + 1 else if c = 61 then 128 else if c = 62 then 192
       else if c = 63 then 256 else 512)"
  by code_simp

text \<open>
  C1, as the code has it.  For every length code from 1 to 64, \<open>RepeatLengthTable[lenCode]\<close>
  is \<open>lenCode + 1\<close> for the codes 1 to 60 (lengths 2 to 61), and 128, 192, 256, 512 for the
  codes 61, 62, 63, 64.
\<close>

theorem RepeatLengthTable_mapping:
  assumes "1 \<le> lenCode" and "lenCode \<le> 64"
  shows "RepeatLengthTable ! unat lenCode =
           (if lenCode \<le> 60 then lenCode + 1 else if lenCode = 61 then 128
            else if lenCode = 62 then 192 else if lenCode = 63 then 256 else 512)"
proof -
  have "unat lenCode \<in> set [1..<65]"
    using assms by (simp add: word_le_nat_alt)
  with RepeatLengthTable_codes
  have "RepeatLengthTable ! unat lenCode =
      (if unat lenCode \<le> 60 then of_nat (unat lenCode) + 1
       else if unat lenCode = 61 then 128 else if unat lenCode = 62 then 192
       else if unat lenCode = 63 then 256 else 512)"
    by blast
  moreover have "unat lenCode \<le> 60 \<longleftrightarrow> lenCode \<le> 60" "unat lenCode = 61 \<longleftrightarrow> lenCode = 61"
    "unat lenCode = 62 \<longleftrightarrow> lenCode = 62" "unat lenCode = 63 \<longleftrightarrow> lenCode = 63"
    by (simp_all add: word_le_nat_alt word_unat_eq_iff)
  ultimately show ?thesis by simp
qed

theorem RepeatLengthTable_mapping_witness:
  "(1 :: u32) \<le> 60 \<and> (60 :: u32) \<le> 64 \<and> RepeatLengthTable ! unat (60 :: u32) = 61"
proof -
  have h: "(1 :: u32) \<le> 60" "(60 :: u32) \<le> 64"
    by simp_all
  from RepeatLengthTable_mapping [OF h] show ?thesis
    using h by simp
qed

text \<open>C1 as stated fails at the length code 61, which the table maps to 128 and not to 62.\<close>

theorem RepeatLengthTable_61:
  "RepeatLengthTable ! unat (61 :: u32) = 128 \<and> RepeatLengthTable ! unat (61 :: u32) \<noteq> 61 + 1"
  by (simp add: RepeatLengthTable_def)

lemma Initialize_new:
  "alphabetSize + 2 \<noteq> 0 \<Longrightarrow>
   Oodle1Decoder_Initialize alphabetSize uniqueSymbols Oodle1Decoder_new
     = Inr (Oodle1Decoder_fresh alphabetSize uniqueSymbols)"
  by (simp add: Oodle1Decoder_Initialize_def Oodle1Decoder_fresh_def Oodle1Decoder_new_def
      Oodle1Decoder_One_def Let_def resize_def unat_eq_0)

lemma Initialize_each_new:
  "a + 2 \<noteq> 0 \<Longrightarrow>
   Initialize_each a u (replicate n Oodle1Decoder_new) = Inr (replicate n (Oodle1Decoder_fresh a u))"
  by (induction n) (simp_all add: Initialize_new)

lemma Initialize_lenGroup_new:
  assumes "g < 4" and "k \<le> 16" and "length ds = 65"
    and "\<forall>i. g * 16 + k \<le> i \<and> i < 65 \<longrightarrow> ds ! i = Oodle1Decoder_new"
  shows "\<exists>ds'. Initialize_lenGroup g k r ds = Inr ds' \<and> length ds' = 65 \<and>
           (\<forall>i < 65. ds' ! i = (if g * 16 + k \<le> i \<and> i < g * 16 + 16
                                then Oodle1Decoder_fresh 65 (drop_bit 24 r) else ds ! i))"
  using assms
proof (induction g k r ds rule: Initialize_lenGroup.induct)
  case (1 g k r ds)
  show ?case
  proof (cases "k < 16")
    case False
    then have "Initialize_lenGroup g k r ds = Inr ds"
      by (subst Initialize_lenGroup.simps) simp
    with False 1(3-5) show ?thesis by auto
  next
    case True
    let ?i = "g * 16 + k"
    let ?f = "Oodle1Decoder_fresh 65 (drop_bit 24 r)"
    have i: "?i < length ds" using True 1(2,4) by simp
    have new: "ds ! ?i = Oodle1Decoder_new" using 1(5) i 1(4) by simp
    have init: "Oodle1Decoder_Initialize 65 (drop_bit 24 r) (ds ! ?i) = Inr ?f"
      by (simp add: new Initialize_new)
    have "\<exists>ds'. Initialize_lenGroup g (k + 1) r (ds[?i := ?f]) = Inr ds' \<and> length ds' = 65 \<and>
           (\<forall>j < 65. ds' ! j = (if g * 16 + (k + 1) \<le> j \<and> j < g * 16 + 16
                                then ?f else ds[?i := ?f] ! j))"
      using True 1(2,4,5) by (intro "1.IH" [OF True refl i init]) auto
    then obtain ds' where ds': "Initialize_lenGroup g (k + 1) r (ds[?i := ?f]) = Inr ds'"
      "length ds' = 65"
      "\<forall>j < 65. ds' ! j = (if g * 16 + (k + 1) \<le> j \<and> j < g * 16 + 16
                                then ?f else ds[?i := ?f] ! j)"
      by blast
    have "Initialize_lenGroup g k r ds = Inr ds'"
      using True i init ds'(1) by (subst Initialize_lenGroup.simps) (simp add: Let_def)
    moreover have "\<forall>j < 65. ds' ! j = (if ?i \<le> j \<and> j < g * 16 + 16 then ?f else ds ! j)"
      using ds'(3) 1(4) True by (auto simp: nth_list_update)
    ultimately show ?thesis using ds'(2) by blast
  qed
qed

lemma Initialize_lenGroups_new:
  assumes "g \<le> 4" and "length ds = 65"
    and "\<forall>i. g * 16 \<le> i \<and> i < 65 \<longrightarrow> ds ! i = Oodle1Decoder_new"
  shows "\<exists>ds'. Initialize_lenGroups g r ds = Inr (push_bit (8 * (4 - g)) r, ds') \<and> length ds' = 65 \<and>
           (\<forall>i < 65. ds' ! i = (if g * 16 \<le> i \<and> i < 64
                then Oodle1Decoder_fresh 65 (drop_bit 24 (push_bit (8 * (i div 16 - g)) r))
                else ds ! i))"
  using assms
proof (induction g r ds rule: Initialize_lenGroups.induct)
  case (1 g r ds)
  show ?case
  proof (cases "g < 4")
    case False
    then have "Initialize_lenGroups g r ds = Inr (r, ds)"
      by (subst Initialize_lenGroups.simps) simp
    with False 1(2-4) show ?thesis by auto
  next
    case True
    from Initialize_lenGroup_new [OF True _ 1(3), of 0 r] 1(4)
    obtain ds1 where ds1: "Initialize_lenGroup g 0 r ds = Inr ds1" "length ds1 = 65"
      "\<forall>i < 65. ds1 ! i = (if g * 16 \<le> i \<and> i < g * 16 + 16
                                then Oodle1Decoder_fresh 65 (drop_bit 24 r) else ds ! i)"
      by auto
    have "\<exists>ds'. Initialize_lenGroups (g + 1) (push_bit 8 r) ds1
             = Inr (push_bit (8 * (4 - (g + 1))) (push_bit 8 r), ds') \<and> length ds' = 65 \<and>
           (\<forall>i < 65. ds' ! i = (if (g + 1) * 16 \<le> i \<and> i < 64
                then Oodle1Decoder_fresh 65 (drop_bit 24 (push_bit (8 * (i div 16 - (g + 1))) (push_bit 8 r)))
                else ds1 ! i))"
      using True ds1(2,3) 1(4) by (intro "1.IH" [OF True ds1(1)]) auto
    then obtain ds' where ds': "Initialize_lenGroups (g + 1) (push_bit 8 r) ds1
             = Inr (push_bit (8 * (4 - (g + 1))) (push_bit 8 r), ds')" "length ds' = 65"
         "\<forall>i < 65. ds' ! i = (if (g + 1) * 16 \<le> i \<and> i < 64
                then Oodle1Decoder_fresh 65 (drop_bit 24 (push_bit (8 * (i div 16 - (g + 1))) (push_bit 8 r)))
                else ds1 ! i)"
      by blast
    have pb: "push_bit (8 * (4 - (g + 1))) (push_bit 8 r) = push_bit (8 * (4 - g)) r"
      using True by (simp add: push_bit_push_bit algebra_simps flip: push_bit_add)
    have "Initialize_lenGroups g r ds = Inr (push_bit (8 * (4 - g)) r, ds')"
      using True ds1(1) ds'(1) pb by (subst Initialize_lenGroups.simps) simp
    moreover have "\<forall>i < 65. ds' ! i = (if g * 16 \<le> i \<and> i < 64
                then Oodle1Decoder_fresh 65 (drop_bit 24 (push_bit (8 * (i div 16 - g)) r))
                else ds ! i)"
    proof (intro allI impI)
      fix i :: nat assume i: "i < 65"
      show "ds' ! i = (if g * 16 \<le> i \<and> i < 64
                then Oodle1Decoder_fresh 65 (drop_bit 24 (push_bit (8 * (i div 16 - g)) r))
                else ds ! i)"
      proof -
        consider (later) "(g + 1) * 16 \<le> i" "i < 64" | (here) "g * 16 \<le> i" "i < g * 16 + 16"
          | (before) "i < g * 16" | (last) "64 \<le> i"
          by atomize_elim (simp, linarith)
        then show ?thesis
        proof cases
          case later
          then have "g + 1 \<le> i div 16"
            by (simp add: less_eq_div_iff_mult_less_eq)
          then have "i div 16 - g = Suc (i div 16 - (g + 1))"
            by simp
          then have "push_bit (8 * (i div 16 - (g + 1))) (push_bit 8 r)
                       = push_bit (8 * (i div 16 - g)) r"
            by (simp add: push_bit_push_bit algebra_simps flip: push_bit_add)
          with later ds'(3) i show ?thesis by simp
        next
          case here
          then have "i div 16 = g"
            by (simp add: div_nat_eqI mult.commute)
          moreover have "i < 64" using here \<open>g < 4\<close> by simp
          moreover have "ds' ! i = ds1 ! i" using ds'(3) i here by simp
          ultimately show ?thesis using ds1(3) i here by simp
        next
          case before
          then have "ds' ! i = ds1 ! i" using ds'(3) i by simp
          then show ?thesis using ds1(3) i before by simp
        next
          case last
          then have "ds' ! i = ds1 ! i" using ds'(3) i by simp
          then show ?thesis using ds1(3) i last \<open>g < 4\<close> by simp
        qed
      qed
    qed
    ultimately show ?thesis using ds'(2) by blast
  qed
qed


lemma push_bit_32_u32: "push_bit 32 (w :: u32) = 0"
  by (rule bit_word_eqI) (simp add: bit_push_bit_iff)

lemma plus_2_neq_0: "unat (x :: u32) < 4294967294 \<Longrightarrow> x + 2 \<noteq> 0"
proof
  assume b: "unat x < 4294967294" and z: "x + 2 = 0"
  have "unat (x + 2) = unat x + 2"
    using b by (simp add: unat_word_ariths)
  with z show False by simp
qed

lemma and_1FF_plus_2: "(x AND 0x1FF) + 2 \<noteq> (0 :: u32)"
proof -
  have "x AND 0x1FF \<le> 0x1FF" by (rule word_and_le1)
  then have "unat (x AND 0x1FF) \<le> 511" by (simp add: word_le_nat_alt)
  then show ?thesis by (intro plus_2_neq_0) simp
qed

lemma min_plus_2: "unat (c :: u32) < 4294967294 \<Longrightarrow> min c x + 2 \<noteq> 0"
proof -
  assume c: "unat c < 4294967294"
  have "min c x \<le> c" by simp
  then have "unat (min c x) \<le> unat c" by (simp add: word_le_nat_alt)
  with c show ?thesis by (intro plus_2_neq_0) simp
qed

lemma div_1024_plus_3: "x div 1024 + 1 + 2 \<noteq> (0 :: u32)"
proof -
  have "unat (x div 1024) = unat x div 1024" by (simp add: unat_div)
  moreover have "unat x < 4294967296" by (rule unat_u32_less)
  ultimately have b: "unat (x div 1024) < 4194304" by simp
  then have "unat (x div 1024 + 1) = unat (x div 1024) + 1"
    by (simp add: unat_word_ariths)
  with b show ?thesis by (intro plus_2_neq_0) simp
qed

lemma Initialize_new_1024:
  "Oodle1Decoder_Initialize (x div 1024 + 1) u Oodle1Decoder_new
     = Inr (Oodle1Decoder_fresh (x div 1024 + 1) u)"
  by (rule Initialize_new) (rule div_1024_plus_3)

lemma Oodle1Decompressor_Initialize_new:
  "\<exists>lens. Oodle1Decompressor_Initialize (header0, header1, header2) Oodle1Decompressor_new =
     Inr \<lparr>litDecoders = replicate 4 (Oodle1Decoder_fresh (header0 AND 0x1FF) (header1 AND 0x1FF)),
          lenDecoders = lens,
          off1Decoder = Oodle1Decoder_fresh (min 4 (drop_bit 9 header0 + 1)) (min 4 (drop_bit 9 header0 + 1)),
          off4Decoders = replicate 256 (Oodle1Decoder_fresh (min 256 (drop_bit 9 header0 div 4 + 1))
                                          (min 256 (drop_bit 9 header0 div 4 + 1))),
          off1024Decoder = Oodle1Decoder_fresh (drop_bit 9 header0 div 1024 + 1) (drop_bit 19 header1 + 1),
          windowSize = drop_bit 9 header0, litAlphabetSize = header0 AND 0x1FF,
          offset1AlphabetSize = min 4 (drop_bit 9 header0 + 1),
          bytesOutput = 0, lastRepeatCode = 0\<rparr>
     \<and> length lens = 65
     \<and> (\<forall>i < 65. lens ! i = Oodle1Decoder_fresh 65 (lenUnique header2 i))"
proof -
  from Initialize_lenGroups_new [of 0 "replicate 65 Oodle1Decoder_new" header2]
  obtain ds where ds: "Initialize_lenGroups 0 header2 (replicate 65 Oodle1Decoder_new)
       = Inr (push_bit 32 header2, ds)" "length ds = 65"
     "\<forall>i < 65. ds ! i = (if i < 64
                then Oodle1Decoder_fresh 65 (drop_bit 24 (push_bit (8 * (i div 16)) header2))
                else replicate 65 Oodle1Decoder_new ! i)"
    by auto
  have d64: "ds ! 64 = Oodle1Decoder_new"
    using ds(3) by simp
  have i64: "Oodle1Decoder_Initialize 65 (drop_bit 24 (push_bit 32 header2)) (ds ! 64)
      = Inr (Oodle1Decoder_fresh 65 0)"
    by (simp add: d64 Initialize_new push_bit_32_u32)
  let ?lens = "ds[64 := Oodle1Decoder_fresh 65 0]"
  have "\<forall>i < 65. ?lens ! i = Oodle1Decoder_fresh 65 (lenUnique header2 i)"
    using ds(2,3) by (auto simp: nth_list_update lenUnique_def)
  moreover have "length ?lens = 65" using ds(2) by simp
  moreover have "Oodle1Decompressor_Initialize (header0, header1, header2) Oodle1Decompressor_new =
     Inr \<lparr>litDecoders = replicate 4 (Oodle1Decoder_fresh (header0 AND 0x1FF) (header1 AND 0x1FF)),
          lenDecoders = ?lens,
          off1Decoder = Oodle1Decoder_fresh (min 4 (drop_bit 9 header0 + 1)) (min 4 (drop_bit 9 header0 + 1)),
          off4Decoders = replicate 256 (Oodle1Decoder_fresh (min 256 (drop_bit 9 header0 div 4 + 1))
                                          (min 256 (drop_bit 9 header0 div 4 + 1))),
          off1024Decoder = Oodle1Decoder_fresh (drop_bit 9 header0 div 1024 + 1) (drop_bit 19 header1 + 1),
          windowSize = drop_bit 9 header0, litAlphabetSize = header0 AND 0x1FF,
          offset1AlphabetSize = min 4 (drop_bit 9 header0 + 1),
          bytesOutput = 0, lastRepeatCode = 0\<rparr>"
    using ds(1,2) i64
    by (simp add: Oodle1Decompressor_Initialize_def Oodle1Decompressor_new_def Let_def
        Initialize_each_new Initialize_new Initialize_new_1024 and_1FF_plus_2 min_plus_2)
  ultimately show ?thesis by blast
qed

lemma drop_push_24: "drop_bit 24 (push_bit 24 (w :: u32)) = take_bit 8 w"
  by (rule bit_word_eqI) (auto simp: bit_simps)

text \<open>
  C2, on the code.  For every header, \<open>Initialize\<close> on a decompressor that was just
  constructed returns, and the length decoder 64 is initialised with alphabet size 65 and
  \<open>uniqueSymbols = 0\<close>: \<open>repLens\<close> has been shifted left by 8 four times when line 161 reads
  \<open>repLens >> 24\<close>.  The lowest byte of \<open>header[2]\<close> goes to the decoders 48 to 63.
\<close>

theorem lenDecoder_64_uniqueSymbols:
  "\<exists>dc. Oodle1Decompressor_Initialize (header0, header1, header2) Oodle1Decompressor_new = Inr dc
        \<and> length (lenDecoders dc) = 65
        \<and> lenDecoders dc ! 64 = Oodle1Decoder_fresh 65 0
        \<and> usedSymbolCount (lenDecoders dc ! 64) = 0
        \<and> usedSymbolCount (lenDecoders dc ! 63) = take_bit 8 header2"
proof -
  from Oodle1Decompressor_Initialize_new [of header0 header1 header2]
  obtain dc where dc: "Oodle1Decompressor_Initialize (header0, header1, header2) Oodle1Decompressor_new = Inr dc"
    "length (lenDecoders dc) = 65"
    "\<forall>i < 65. lenDecoders dc ! i = Oodle1Decoder_fresh 65 (lenUnique header2 i)"
    by force
  have "lenDecoders dc ! 64 = Oodle1Decoder_fresh 65 0"
    using dc(3) by (simp add: lenUnique_def)
  moreover have "lenDecoders dc ! 63 = Oodle1Decoder_fresh 65 (take_bit 8 header2)"
    using dc(3) by (simp add: lenUnique_def drop_push_24)
  ultimately show ?thesis
    using dc(1,2) by (simp add: Oodle1Decoder_fresh_def Let_def)
qed

text \<open>At the header words \<open>4, 4, 0x01020304\<close> the lowest byte is 4 and the decoder 64 gets 0.\<close>

theorem lenDecoder_64_example:
  "\<exists>dc. Oodle1Decompressor_Initialize (0x04, 0x04, 0x01020304) Oodle1Decompressor_new = Inr dc
        \<and> usedSymbolCount (lenDecoders dc ! 64) = 0
        \<and> usedSymbolCount (lenDecoders dc ! 63) = 4"
  using lenDecoder_64_uniqueSymbols [of "0x04" "0x04" "0x01020304"]
  by (auto simp: take_bit_eq_mod)


lemma Repeat_copies:
  assumes "0 \<le> inp" and "inp \<le> outp" and "nat outp + unat len \<le> length mem"
  shows "\<exists>mem1. Repeat mem outp inp len = Inr mem1 \<and> length mem1 = length mem
           \<and> (\<forall>i < nat outp. mem1 ! i = mem ! i)
           \<and> (\<forall>k < unat len. mem1 ! (nat outp + k) = mem1 ! (nat inp + k))"
  using assms
proof (induction mem outp inp len rule: Repeat.induct)
  case (1 mem outp inp len)
  show ?case
  proof (cases "len = 0")
    case True
    then show ?thesis by (subst Repeat.simps) simp
  next
    case False
    then have len: "unat (len - 1) = unat len - 1" "0 < unat len"
      by (simp_all add: unat_minus_one unat_gt_0)
    have rng: "0 \<le> inp \<and> inp < int (length mem) \<and> 0 \<le> outp \<and> outp < int (length mem)"
      using 1(2-4) len by auto
    let ?mem = "mem[nat outp := mem ! nat inp]"
    have "\<exists>mem1. Repeat ?mem (outp + 1) (inp + 1) (len - 1) = Inr mem1 \<and> length mem1 = length ?mem
           \<and> (\<forall>i < nat (outp + 1). mem1 ! i = ?mem ! i)
           \<and> (\<forall>k < unat (len - 1). mem1 ! (nat (outp + 1) + k) = mem1 ! (nat (inp + 1) + k))"
      using 1(2-4) len by (intro "1.IH" [OF False rng]) auto
    then obtain mem1 where m: "Repeat ?mem (outp + 1) (inp + 1) (len - 1) = Inr mem1"
      "length mem1 = length mem" "\<forall>i < nat (outp + 1). mem1 ! i = ?mem ! i"
      "\<forall>k < unat (len - 1). mem1 ! (nat (outp + 1) + k) = mem1 ! (nat (inp + 1) + k)"
      by auto
    have r: "Repeat mem outp inp len = Inr mem1"
      using False rng m(1) by (subst Repeat.simps) simp
    have below: "\<forall>i < nat outp. mem1 ! i = mem ! i"
      using m(3) rng by (auto simp: nth_list_update)
    have first: "mem1 ! nat outp = mem1 ! nat inp"
    proof (cases "inp = outp")
      case True
      then show ?thesis by simp
    next
      case False
      then have lt: "nat inp < nat outp" using 1(2,3) by simp
      have "mem1 ! nat outp = ?mem ! nat outp" using m(3) rng by simp
      also have "\<dots> = mem ! nat inp" using rng by (simp add: nat_less_iff)
      also have "\<dots> = mem1 ! nat inp" using below lt by simp
      finally show ?thesis .
    qed
    have "\<forall>k < unat len. mem1 ! (nat outp + k) = mem1 ! (nat inp + k)"
    proof (intro allI impI)
      fix k assume k: "k < unat len"
      show "mem1 ! (nat outp + k) = mem1 ! (nat inp + k)"
      proof (cases k)
        case 0
        with first show ?thesis by simp
      next
        case (Suc j)
        then have "j < unat (len - 1)" using k len by simp
        with m(4) have "mem1 ! (nat (outp + 1) + j) = mem1 ! (nat (inp + 1) + j)" by simp
        moreover have "nat (outp + 1) = Suc (nat outp)" "nat (inp + 1) = Suc (nat inp)"
          using rng by (auto simp: nat_add_distrib)
        ultimately show ?thesis using Suc by simp
      qed
    qed
    with r m(2) below show ?thesis by blast
  qed
qed

text \<open>
  C3, as the code has it.  \<open>Decompress\<close> does not compare a decoded offset with
  \<open>bytesOutput\<close> or with zero and has no error to return: whenever the length code is not 0,
  the three offset decodes return, and the bytes read (from \<open>output - offset\<close> on) and written
  (\<open>len\<close> bytes from \<open>output\<close> on) lie in the caller's buffer, it returns \<open>len\<close>, adds \<open>len\<close>
  to \<open>bytesOutput\<close> and has copied forward: the bytes before \<open>output\<close> are as they were and
  every byte written equals the byte \<open>offset\<close> places before it.
\<close>

theorem Decompress_repeat_unchecked:
  assumes "unat (lastRepeatCode dc0) < length (lenDecoders dc0)"
    and "Decode bs 65 (lenDecoders dc0 ! unat (lastRepeatCode dc0)) = Inr (lenCode, bs1, lenD)"
    and "lenCode \<noteq> 0" and "unat lenCode < 65"
    and "Decompress_offset bs1
           (dc0\<lparr>lenDecoders := (lenDecoders dc0)[unat (lastRepeatCode dc0) := lenD],
                lastRepeatCode := lenCode\<rparr>) = Inr (offset, bs2, dc1)"
    and "unat offset \<le> out"
    and "out + unat (RepeatLengthTable ! unat lenCode) \<le> length mem"
  shows "\<exists>mem1. Decompress bs mem out dc0 =
             Inr (RepeatLengthTable ! unat lenCode, bs2, mem1,
                  dc1\<lparr>bytesOutput := bytesOutput dc1 + RepeatLengthTable ! unat lenCode\<rparr>)
           \<and> length mem1 = length mem
           \<and> (\<forall>i < out. mem1 ! i = mem ! i)
           \<and> (\<forall>k < unat (RepeatLengthTable ! unat lenCode).
                  mem1 ! (out + k) = mem1 ! (out - unat offset + k))"
proof -
  let ?len = "RepeatLengthTable ! unat lenCode"
  have "\<exists>mem1. Repeat mem (int out) (int out - int (unat offset)) ?len = Inr mem1
           \<and> length mem1 = length mem
           \<and> (\<forall>i < nat (int out). mem1 ! i = mem ! i)
           \<and> (\<forall>k < unat ?len. mem1 ! (nat (int out) + k)
                                  = mem1 ! (nat (int out - int (unat offset)) + k))"
    using assms(6,7) by (intro Repeat_copies) (auto simp: uint_nat simp del: of_nat_unat)
  then obtain mem1 where m: "Repeat mem (int out) (int out - int (unat offset)) ?len = Inr mem1"
    "length mem1 = length mem" "\<forall>i < out. mem1 ! i = mem ! i"
    "\<forall>k < unat ?len. mem1 ! (out + k) = mem1 ! (nat (int out - int (unat offset)) + k)"
    by auto
  have n: "nat (int out - int (unat offset)) = out - unat offset"
    using assms(6) by (simp add: uint_nat del: of_nat_unat)
  have t: "length RepeatLengthTable = 65"
    by (simp add: RepeatLengthTable_def)
  have "Decompress bs mem out dc0 =
          Inr (?len, bs2, mem1, dc1\<lparr>bytesOutput := bytesOutput dc1 + ?len\<rparr>)"
    using assms(1-5) m(1) t
    by (simp add: Decompress_def Decompress_repeat_def Let_def)
  with m(2,3,4) n show ?thesis by auto
qed

lemma ex_stream_new: "Oodle1Bitstream_new (0x10 # replicate 15 0) = Inr (ex_stream 1 8 0x80)"
  by code_simp

lemma ex_dc_fields:
  "length (lenDecoders ex_dc) = 65 \<and> lenDecoders ex_dc ! 0 = Oodle1Decoder_fresh 65 1
   \<and> off1Decoder ex_dc = Oodle1Decoder_fresh 1 1 \<and> off1024Decoder ex_dc = Oodle1Decoder_fresh 1 1
   \<and> off4Decoders ex_dc = replicate 256 (Oodle1Decoder_fresh 1 1)
   \<and> windowSize ex_dc = 0 \<and> offset1AlphabetSize ex_dc = 1
   \<and> bytesOutput ex_dc = 0 \<and> lastRepeatCode ex_dc = 0"
proof -
  from Oodle1Decompressor_Initialize_new [of "0x04" "0x04" "0x01020304"]
  obtain lens where l: "Oodle1Decompressor_Initialize ex_header Oodle1Decompressor_new =
     Inr \<lparr>litDecoders = replicate 4 (Oodle1Decoder_fresh (0x04 AND 0x1FF) (0x04 AND 0x1FF)),
          lenDecoders = lens,
          off1Decoder = Oodle1Decoder_fresh (min 4 (drop_bit 9 0x04 + 1)) (min 4 (drop_bit 9 0x04 + 1)),
          off4Decoders = replicate 256 (Oodle1Decoder_fresh (min 256 (drop_bit 9 0x04 div 4 + 1))
                                          (min 256 (drop_bit 9 0x04 div 4 + 1))),
          off1024Decoder = Oodle1Decoder_fresh (drop_bit 9 0x04 div 1024 + 1) (drop_bit 19 0x04 + 1),
          windowSize = drop_bit 9 0x04, litAlphabetSize = 0x04 AND 0x1FF,
          offset1AlphabetSize = min 4 (drop_bit 9 0x04 + 1),
          bytesOutput = 0, lastRepeatCode = 0\<rparr>"
     "length lens = 65" "\<forall>i < 65. lens ! i = Oodle1Decoder_fresh 65 (lenUnique 0x01020304 i)"
    by blast
  have u: "lenUnique 0x01020304 0 = 1"
    by (simp add: lenUnique_def drop_bit_eq_div)
  have d: "drop_bit 9 (4 :: u32) = 0" "drop_bit 19 (4 :: u32) = 0"
    by (simp_all add: drop_bit_eq_div)
  show ?thesis
    using l(2,3) u by (simp add: l(1) d)
qed

lemma ex_Decode_len:
  "Decode (ex_stream 1 8 0x80) 65 (Oodle1Decoder_fresh 65 1)
     = Inr (4, ex_stream 4 2064892 33038209, ex_lenD)"
  by code_simp

lemma ex_Decode_off:
  "Decode (ex_stream 4 2064892 33038209) 1 (Oodle1Decoder_fresh 1 1)
     = Inr (0, ex_stream 4 2064892 33038209, ex_offD)"
  by code_simp

lemma ex_Decompress_offset:
  "Decompress_offset (ex_stream 4 2064892 33038209) ex_dc1
     = Inr (1, ex_stream 4 2064892 33038209, ex_dc2)"
  using ex_dc_fields
  by (simp add: Decompress_offset_def Let_def ex_Decode_off)

lemma ex_Repeat: "Repeat ex_mem 4 3 5 = Inr [1, 2, 3, 4, 4, 4, 4, 4, 4, 10]"
  by code_simp

lemma ex_Decompress:
  "Decompress (ex_stream 1 8 0x80) ex_mem 4 ex_dc
     = Inr (5, ex_stream 4 2064892 33038209, [1, 2, 3, 4, 4, 4, 4, 4, 4, 10],
            ex_dc2\<lparr>bytesOutput := 5\<rparr>)"
proof -
  have t: "length RepeatLengthTable = 65" "RepeatLengthTable ! 4 = 5"
    by (simp_all add: RepeatLengthTable_def)
  show ?thesis
    using ex_dc_fields ex_Decompress_offset ex_Repeat ex_Decode_len t
    by (simp add: Decompress_def Decompress_repeat_def Let_def)
qed

text \<open>
  C3 as stated fails: the first \<open>Decompress\<close> of a stream whose output starts at position 4
  of the buffer decodes the length code 4 and the offset 1 while \<open>bytesOutput\<close> is 0; it
  copies the byte before the stream's output five times and returns 5.
\<close>

theorem Decompress_copies_beyond_bytesOutput:
  "bytesOutput ex_dc1 = 0
   \<and> Decompress_offset (ex_stream 4 2064892 33038209) ex_dc1
       = Inr (1, ex_stream 4 2064892 33038209, ex_dc2)
   \<and> Decompress (ex_stream 1 8 0x80) ex_mem 4 ex_dc
       = Inr (5, ex_stream 4 2064892 33038209, [1, 2, 3, 4, 4, 4, 4, 4, 4, 10],
              ex_dc2\<lparr>bytesOutput := 5\<rparr>)"
  using ex_dc_fields ex_Decompress_offset ex_Decompress by simp

theorem Decompress_repeat_unchecked_witness:
  "\<exists>mem1. Decompress (ex_stream 1 8 0x80) ex_mem 4 ex_dc
             = Inr (5, ex_stream 4 2064892 33038209, mem1, ex_dc2\<lparr>bytesOutput := 5\<rparr>)
         \<and> length mem1 = 10 \<and> mem1 ! 3 = 4 \<and> mem1 ! 4 = mem1 ! 3 \<and> mem1 ! 8 = mem1 ! 7"
proof -
  have f: "unat (lastRepeatCode ex_dc) < length (lenDecoders ex_dc)"
    "Decode (ex_stream 1 8 0x80) 65 (lenDecoders ex_dc ! unat (lastRepeatCode ex_dc))
       = Inr (4, ex_stream 4 2064892 33038209, ex_lenD)"
    "(4 :: u32) \<noteq> 0" "unat (4 :: u32) < 65"
    using ex_dc_fields ex_Decode_len by simp_all
  have g: "Decompress_offset (ex_stream 4 2064892 33038209)
             (ex_dc\<lparr>lenDecoders := (lenDecoders ex_dc)[unat (lastRepeatCode ex_dc) := ex_lenD],
                    lastRepeatCode := 4\<rparr>)
           = Inr (1, ex_stream 4 2064892 33038209, ex_dc2)"
    using ex_dc_fields ex_Decompress_offset by simp
  have t: "RepeatLengthTable ! 4 = 5"
    by (simp add: RepeatLengthTable_def)
  have h: "unat (1 :: u32) \<le> 4" "4 + unat (RepeatLengthTable ! unat (4 :: u32)) \<le> length ex_mem"
    by (simp_all add: t)
  from Decompress_repeat_unchecked [OF f g h]
  obtain mem1 where m: "Decompress (ex_stream 1 8 0x80) ex_mem 4 ex_dc =
             Inr (RepeatLengthTable ! unat (4 :: u32), ex_stream 4 2064892 33038209, mem1,
                  ex_dc2\<lparr>bytesOutput := bytesOutput ex_dc2 + RepeatLengthTable ! unat (4 :: u32)\<rparr>)"
    "length mem1 = length ex_mem" "\<forall>i < 4. mem1 ! i = ex_mem ! i"
    "\<forall>k < unat (RepeatLengthTable ! unat (4 :: u32)). mem1 ! (4 + k) = mem1 ! (4 - unat (1 :: u32) + k)"
    by blast
  have "mem1 ! 3 = 4" using m(3) by simp
  moreover have k: "\<forall>k < 5. mem1 ! (4 + k) = mem1 ! (3 + k)"
    using m(4) by (simp add: t)
  moreover have "mem1 ! 4 = mem1 ! 3"
    using k [rule_format, of 0] by simp
  moreover have "mem1 ! 8 = mem1 ! 7"
    using k [rule_format, of 4] by simp
  ultimately show ?thesis
    using m(1,2) ex_dc_fields by (simp add: t)
qed

section \<open>Symbols stay inside the alphabet\<close>

lemma andThen_eq_InrE:
  assumes "andThen m f = Inr y"
  obtains x where "m = Inr x" and "f x = Inr y"
  using assms by (auto simp: andThen_eq_Inr)

lemma Decay_while_symbols:
  "Decay_while idx d = Inr d' \<Longrightarrow> set (symbols d') \<subseteq> set (symbols d)"
proof (induction idx d rule: Decay_while.induct)
  case (1 idx d)
  show ?case
  proof (cases "idx < length (symbolOccurrences d) \<and> symbolOccurrences d ! idx \<le> 1
                 \<and> \<not> unat (highestLearnedSymbol d) \<le> idx")
    case False
    with "1.prems" show ?thesis
      by (subst (asm) Decay_while.simps) (auto split: if_splits)
  next
    case True
    let ?h = "unat (highestLearnedSymbol d)"
    from True "1.prems" have b: "?h < length (symbolOccurrences d) \<and> ?h < length (symbols d)
        \<and> idx < length (symbols d)" and r: "Decay_while idx (Decay_evict idx d) = Inr d'"
      by (subst (asm) Decay_while.simps, simp add: Let_def split: if_splits)+
    from True b have "set (symbols d') \<subseteq> set (symbols (Decay_evict idx d))"
      by (intro "1.IH" [OF _ _ _ refl _ r]) simp_all
    moreover have "set (symbols (Decay_evict idx d)) \<subseteq> set (symbols d)"
      using b set_update_subset_insert [of "symbols d" idx "symbols d ! ?h"]
      by (auto simp: Decay_evict_def Let_def)
    ultimately show ?thesis by blast
  qed
qed

lemma Decay_for_symbols:
  "Decay_for idx hw hi d = Inr (hw', hi', d') \<Longrightarrow> set (symbols d') \<subseteq> set (symbols d)"
proof (induction idx hw hi d rule: Decay_for.induct)
  case (1 idx hw hi d)
  show ?case
  proof (cases "idx \<le> unat (highestLearnedSymbol d)")
    case False
    with "1.prems" show ?thesis
      by (subst (asm) Decay_for.simps) simp
  next
    case True
    from True "1.prems" obtain d1 where d1: "Decay_while idx d = Inr d1"
      by (subst (asm) Decay_for.simps) (auto split: sum.splits)
    note sub = Decay_while_symbols [OF d1]
    from True "1.prems" d1 have len: "idx < length (symbolOccurrences d1)"
      by (subst (asm) Decay_for.simps) (auto split: if_splits)
    show ?thesis
    proof (cases "symbolOccurrences d1 ! idx = 0")
      case z: True
      with True "1.prems" d1 len have "d' = d1"
        by (subst (asm) Decay_for.simps) simp
      with sub show ?thesis by simp
    next
      case nz: False
      let ?half = "symbolOccurrences d1 ! idx div 2"
      let ?d2 = "d1\<lparr>symbolOccurrences := (symbolOccurrences d1)[idx := ?half],
                      totalOccurrence := totalOccurrence d1 + ucast ?half\<rparr>"
      show ?thesis
      proof (cases "hw < ucast ?half")
        case lt: True
        with True "1.prems" d1 len nz
        have r: "Decay_for (idx + 1) (ucast ?half) (of_nat idx) ?d2 = Inr (hw', hi', d')"
          by (subst (asm) Decay_for.simps) (simp add: Let_def)
        have "set (symbols d') \<subseteq> set (symbols ?d2)"
          by (rule "1.IH"(1) [OF True d1 len nz refl refl lt r])
        with sub show ?thesis by auto
      next
        case ge: False
        with True "1.prems" d1 len nz
        have r: "Decay_for (idx + 1) hw hi ?d2 = Inr (hw', hi', d')"
          by (subst (asm) Decay_for.simps) (simp add: Let_def)
        have "set (symbols d') \<subseteq> set (symbols ?d2)"
          by (rule "1.IH"(2) [OF True d1 len nz refl refl ge r])
        with sub show ?thesis by auto
      qed
    qed
  qed
qed

lemma set_swap_subset: "i < length xs \<Longrightarrow> h < length xs \<Longrightarrow> set (xs[h := xs ! i, i := xs ! h]) \<subseteq> set xs"
  by (metis dual_order.refl set_swap)

lemma Decay_symbols: "Decay d = Inr d' \<Longrightarrow> set (symbols d') \<subseteq> set (symbols d)"
  by (auto simp: Decay_def Let_def andThen_eq_Inr Decay_swap_def Decay_escape_def fill_weights_def
      split: if_splits dest!: Decay_for_symbols set_swap_subset [THEN subsetD, rotated 2])

lemma Renormalize_for_symbols: "Renormalize_for idx q acc d = Inr d' \<Longrightarrow> symbols d' = symbols d"
proof (induction idx q acc d rule: Renormalize_for.induct)
  case (1 idx q acc d)
  then show ?case
    by (subst (asm) (2) Renormalize_for.simps) (auto split: if_splits)
qed

lemma Renormalize_symbols: "Renormalize d = Inr d' \<Longrightarrow> symbols d' = symbols d"
  by (auto simp: Renormalize_def Let_def andThen_eq_Inr Renormalize_schedule_def fill_weights_def
      split: if_splits dest!: Renormalize_for_symbols)

lemma Decode_adapt_symbols: "Decode_adapt d = Inr d' \<Longrightarrow> set (symbols d') \<subseteq> set (symbols d)"
  by (auto simp: Decode_adapt_def andThen_eq_Inr split: if_splits
      dest!: Renormalize_symbols Decay_symbols)

lemma symbols_belowI: "(\<And>s. s \<in> set (symbols d) \<Longrightarrow> ucast s < a) \<Longrightarrow> symbols_below a d"
  by (simp add: symbols_below_def list_all_iff)

lemma symbols_belowD: "symbols_below a d \<Longrightarrow> s \<in> set (symbols d) \<Longrightarrow> ucast s < a"
  by (simp add: symbols_below_def list_all_iff)

lemma symbols_below_nth: "symbols_below a d \<Longrightarrow> i < length (symbols d) \<Longrightarrow> ucast (symbols d ! i) < a"
  by (simp add: symbols_belowD)

lemma symbols_below_subset:
  "symbols_below a d \<Longrightarrow> set (symbols d') \<subseteq> set (symbols d) \<Longrightarrow> symbols_below a d'"
  by (auto simp: symbols_below_def list_all_iff)

lemma ucast_down_le: "ucast (ucast (x :: u32) :: u8) \<le> x"
  by (simp add: word_le_nat_alt unsigned_ucast_eq unsigned_take_bit_eq)

lemma symbols_below_update:
  assumes "symbols_below a d" and "x < a"
  shows "symbols_below a (d\<lparr>symbols := (symbols d)[h := ucast x]\<rparr>)"
proof (rule symbols_belowI)
  fix s assume "s \<in> set (symbols (d\<lparr>symbols := (symbols d)[h := ucast x]\<rparr>))"
  then have "s = ucast x \<or> s \<in> set (symbols d)"
    using set_update_subset_insert [of "symbols d" h "ucast x"] by auto
  then show "ucast s < a"
  proof
    assume "s = ucast x"
    then have "(ucast s :: u32) \<le> x" by (simp add: ucast_down_le)
    with assms(2) show ?thesis by simp
  next
    assume "s \<in> set (symbols d)"
    with assms(1) show ?thesis by (rule symbols_belowD)
  qed
qed

lemma Get_less: "Get one bs = Inr (z, bs') \<Longrightarrow> z < one"
proof -
  assume "Get one bs = Inr (z, bs')"
  then have o: "one \<noteq> 0" and z: "z \<le> one - 1" using Get_bound by blast+
  from o have "unat (one - 1) = unat one - 1" "0 < unat one"
    by (simp_all add: unat_minus_one unat_gt_0)
  with z have "unat z < unat one"
    by (simp add: word_le_nat_alt)
  then show ?thesis
    by (simp add: word_less_nat_alt)
qed

lemma symbols_below_cong: "symbols d' = symbols d \<Longrightarrow> symbols_below a d' = symbols_below a d"
  by (simp add: symbols_below_def)

lemma Decode_learn_below:
  assumes "symbols_below a d" and "Decode_learn bs a d = Inr (v, bs', d')"
  shows "v < a \<and> symbols_below a d'"
proof -
  let ?h = "unat (highestLearnedSymbol d + 1)"
  from assms(2) obtain bs1 where g: "Get a bs = Inr (v, bs1)"
    and s: "symbols d' = (symbols d)[?h := ucast v]"
    by (auto simp: Decode_learn_def Let_def andThen_eq_Inr split: if_splits)
  from g have v: "v < a" by (rule Get_less)
  from symbols_below_update [OF assms(1) v, of ?h] s
  have "symbols_below a d'"
    by (simp add: symbols_below_def)
  with v show ?thesis by simp
qed

lemma Decode_escape_below:
  assumes "symbols_below a d" and "Decode_escape bs a d = Inr (v, bs', d')"
  shows "v < a \<and> symbols_below a d'"
  using assms
  by (auto simp: Decode_escape_def Let_def andThen_eq_Inr symbols_below_nth
      split: if_splits dest: Decode_learn_below cong: symbols_below_cong)

lemma Decode_symbolD:
  assumes "Decode_symbol bs a d = Inr r"
  shows "\<exists>z bs1 k bs2.
     Peek Oodle1Decoder_One bs = Inr (z, bs1) \<and> Decode_scan 0 z d = Inr k
     \<and> k + 1 < length (symbolWeights d) \<and> k < length (symbolOccurrences d)
     \<and> Consume (ucast (symbolWeights d ! k))
           (ucast (symbolWeights d ! (k + 1)) - ucast (symbolWeights d ! k)) Oodle1Decoder_One bs1
         = Inr bs2
     \<and> ((k \<noteq> 0 \<and> k < length (symbols d)
          \<and> r = (ucast (symbols d ! k), bs2,
                   d\<lparr>symbolOccurrences := (symbolOccurrences d)[k := symbolOccurrences d ! k + 1],
                     totalOccurrence := totalOccurrence d + 1\<rparr>))
        \<or> (k = 0 \<and> Decode_escape bs2 a
               (d\<lparr>symbolOccurrences := (symbolOccurrences d)[k := symbolOccurrences d ! k + 1],
                  totalOccurrence := totalOccurrence d + 1\<rparr>) = Inr r))"
  using assms unfolding Decode_symbol_def
  by (fastforce simp: andThen_eq_Inr Let_def split: if_splits)

lemma Decode_symbol_below:
  assumes "symbols_below a d" and "Decode_symbol bs a d = Inr (v, bs', d')"
  shows "v < a \<and> symbols_below a d'"
proof -
  from Decode_symbolD [OF assms(2)] obtain k bs2 where
    3: "(k \<noteq> 0 \<and> k < length (symbols d)
          \<and> (v, bs', d') = (ucast (symbols d ! k), bs2,
                   d\<lparr>symbolOccurrences := (symbolOccurrences d)[k := symbolOccurrences d ! k + 1],
                     totalOccurrence := totalOccurrence d + 1\<rparr>))
        \<or> (k = 0 \<and> Decode_escape bs2 a
               (d\<lparr>symbolOccurrences := (symbolOccurrences d)[k := symbolOccurrences d ! k + 1],
                  totalOccurrence := totalOccurrence d + 1\<rparr>) = Inr (v, bs', d'))"
    by blast
  let ?d1 = "d\<lparr>symbolOccurrences := (symbolOccurrences d)[k := symbolOccurrences d ! k + 1],
                           totalOccurrence := totalOccurrence d + 1\<rparr>"
  have b1: "symbols_below a ?d1"
    using assms(1) by (simp add: symbols_below_def)
  from 3 show ?thesis
  proof
    assume "k = 0 \<and> Decode_escape bs2 a ?d1 = Inr (v, bs', d')"
    then have "Decode_escape bs2 a ?d1 = Inr (v, bs', d')" by (rule conjunct2)
    from Decode_escape_below [OF b1 this] show ?thesis .
  next
    assume "k \<noteq> 0 \<and> k < length (symbols d) \<and> (v, bs', d') = (ucast (symbols d ! k), bs2, ?d1)"
    then have "k < length (symbols d)" "v = ucast (symbols d ! k)" "d' = ?d1"
      by simp_all
    with b1 assms(1) show ?thesis
      by (simp add: symbols_below_nth)
  qed
qed

lemma Decode_below:
  assumes "symbols_below a d" and "Decode bs a d = Inr (v, bs', d')"
  shows "v < a \<and> symbols_below a d'"
proof -
  from assms(2) obtain d1 where a: "Decode_adapt d = Inr d1"
    and s: "Decode_symbol bs a d1 = Inr (v, bs', d')"
    by (auto simp: Decode_def andThen_eq_Inr)
  from symbols_below_subset [OF assms(1) Decode_adapt_symbols [OF a]]
  have "symbols_below a d1" .
  from Decode_symbol_below [OF this s] show ?thesis .
qed

lemma symbols_below_fresh: "0 < a \<Longrightarrow> symbols_below a (Oodle1Decoder_fresh b u)"
  by (simp add: symbols_below_def Oodle1Decoder_fresh_def Let_def list_all_iff)

lemma Decompress_offset_len:
  "Decompress_offset bs dc = Inr (offset, bs', dc') \<Longrightarrow>
     lenDecoders dc' = lenDecoders dc \<and> lastRepeatCode dc' = lastRepeatCode dc"
  by (auto simp: Decompress_offset_def Let_def andThen_eq_Inr split: if_splits)

lemma Decompress_lenDecoders_ok:
  assumes "lenDecoders_ok dc" and "Decompress bs mem out dc = Inr (n, bs', mem', dc')"
  shows "lenDecoders_ok dc'"
proof -
  let ?i = "unat (lastRepeatCode dc)"
  from assms(1) have i: "?i < length (lenDecoders dc)" and len: "length (lenDecoders dc) = 65"
    and all: "list_all (symbols_below 65) (lenDecoders dc)"
    by (simp_all add: lenDecoders_ok_def word_less_nat_alt)
  from assms(2) i obtain lenCode bs1 lenD where
    d: "Decode bs 65 (lenDecoders dc ! ?i) = Inr (lenCode, bs1, lenD)"
    and r: "(if lenCode = 0
             then Decompress_literal bs1 mem out
                    (dc\<lparr>lenDecoders := (lenDecoders dc)[?i := lenD], lastRepeatCode := lenCode\<rparr>)
             else Decompress_repeat lenCode bs1 mem out
                    (dc\<lparr>lenDecoders := (lenDecoders dc)[?i := lenD], lastRepeatCode := lenCode\<rparr>))
            = Inr (n, bs', mem', dc')"
    by (auto simp: Decompress_def Let_def andThen_eq_Inr)
  let ?dc = "dc\<lparr>lenDecoders := (lenDecoders dc)[?i := lenD], lastRepeatCode := lenCode\<rparr>"
  have "symbols_below 65 (lenDecoders dc ! ?i)"
    using all i by (simp add: list_all_length)
  from Decode_below [OF this d] have c: "lenCode < 65" and b: "symbols_below 65 lenD"
    by simp_all
  have "list_all (symbols_below 65) ((lenDecoders dc)[?i := lenD])"
    using all b i by (auto simp: list_all_length nth_list_update)
  with c len have ok: "lenDecoders_ok ?dc"
    by (simp add: lenDecoders_ok_def)
  have "lenDecoders dc' = lenDecoders ?dc \<and> lastRepeatCode dc' = lastRepeatCode ?dc"
    using r
    by (auto simp: Decompress_literal_def Decompress_repeat_def Let_def andThen_eq_Inr
        split: if_splits dest!: Decompress_offset_len)
  with ok show ?thesis
    by (simp add: lenDecoders_ok_def)
qed

lemma Decompress_calls_lenDecoders_ok:
  "lenDecoders_ok dc \<Longrightarrow> Decompress_calls calls dc = Inr dc' \<Longrightarrow> lenDecoders_ok dc'"
proof (induction calls arbitrary: dc)
  case Nil
  then show ?case by simp
next
  case (Cons c calls)
  obtain bs mem out where c: "c = (bs, mem, out)" by (cases c)
  from Cons.prems(2) c obtain n bs1 mem1 dc1 where
    s: "Decompress bs mem out dc = Inr (n, bs1, mem1, dc1)" and t: "Decompress_calls calls dc1 = Inr dc'"
    by (auto split: sum.splits)
  from Decompress_lenDecoders_ok [OF Cons.prems(1) s] have "lenDecoders_ok dc1" .
  from Cons.IH [OF this t] show ?case .
qed

lemma Initialize_lenDecoders_ok:
  assumes "Oodle1Decompressor_Initialize header Oodle1Decompressor_new = Inr dc"
  shows "lenDecoders_ok dc"
proof -
  obtain h0 h1 h2 where h: "header = (h0, h1, h2)" by (cases header)
  from Oodle1Decompressor_Initialize_new [of h0 h1 h2] assms h
  have "length (lenDecoders dc) = 65" "lastRepeatCode dc = 0"
    "\<forall>i < 65. lenDecoders dc ! i = Oodle1Decoder_fresh 65 (lenUnique h2 i)"
    by auto
  then show ?thesis
    by (simp add: lenDecoders_ok_def list_all_length symbols_below_fresh)
qed

text \<open>
  C10.  After \<open>Initialize\<close> on a decompressor that was just constructed and any run of
  \<open>Decompress\<close> calls that return, \<open>lastRepeatCode < 65\<close>, so \<open>lenDecoders[lastRepeatCode]\<close>
  is inside the 65-element array, and every value that \<open>Decode(bs, 65)\<close> returns on that
  length decoder is at most 64.
\<close>

theorem lastRepeatCode_in_range:
  assumes "Oodle1Decompressor_Initialize header Oodle1Decompressor_new = Inr dc0"
    and "Decompress_calls calls dc0 = Inr dc"
  shows "lastRepeatCode dc < 65 \<and> unat (lastRepeatCode dc) < length (lenDecoders dc)
         \<and> length (lenDecoders dc) = 65
         \<and> (\<forall>bs v bs' d'. Decode bs 65 (lenDecoders dc ! unat (lastRepeatCode dc)) = Inr (v, bs', d')
               \<longrightarrow> v \<le> 64)"
proof -
  from Decompress_calls_lenDecoders_ok [OF Initialize_lenDecoders_ok [OF assms(1)] assms(2)]
  have ok: "lenDecoders_ok dc" .
  then have l: "lastRepeatCode dc < 65" and n: "length (lenDecoders dc) = 65"
    and all: "list_all (symbols_below 65) (lenDecoders dc)"
    by (simp_all add: lenDecoders_ok_def)
  from l n have i: "unat (lastRepeatCode dc) < length (lenDecoders dc)"
    by (simp add: word_less_nat_alt)
  have b: "symbols_below 65 (lenDecoders dc ! unat (lastRepeatCode dc))"
    using all i by (simp add: list_all_length)
  have "v \<le> 64" if "Decode bs 65 (lenDecoders dc ! unat (lastRepeatCode dc)) = Inr (v, bs', d')"
    for bs v bs' d'
  proof -
    from Decode_below [OF b that] have "v < 65" by simp
    then show ?thesis by (simp add: word_less_nat_alt word_le_nat_alt)
  qed
  with l i n show ?thesis by blast
qed

theorem lastRepeatCode_in_range_witness:
  "Oodle1Decompressor_Initialize ex_header Oodle1Decompressor_new = Inr ex_dc
   \<and> Decompress_calls [(ex_stream 1 8 0x80, ex_mem, 4)] ex_dc = Inr (ex_dc2\<lparr>bytesOutput := 5\<rparr>)
   \<and> lastRepeatCode (ex_dc2\<lparr>bytesOutput := 5\<rparr>) = 4
   \<and> lastRepeatCode (ex_dc2\<lparr>bytesOutput := 5\<rparr>) < 65
   \<and> length (lenDecoders (ex_dc2\<lparr>bytesOutput := 5\<rparr>)) = 65"
proof -
  from Oodle1Decompressor_Initialize_new [of "0x04" "0x04" "0x01020304"]
  have i: "Oodle1Decompressor_Initialize ex_header Oodle1Decompressor_new = Inr ex_dc"
    by auto
  have c: "Decompress_calls [(ex_stream 1 8 0x80, ex_mem, 4)] ex_dc = Inr (ex_dc2\<lparr>bytesOutput := 5\<rparr>)"
    using ex_Decompress by simp
  from lastRepeatCode_in_range [OF i c] show ?thesis
    using i c by simp
qed

section \<open>Occurrence counts and the weight table\<close>

lemma weights_ok_iff:
  "weights_ok d \<longleftrightarrow>
     (\<forall>i. i \<le> unat (highestNormalizedSymbol d) \<and> i + 1 < length (symbolWeights d)
          \<longrightarrow> symbolWeights d ! i \<le> symbolWeights d ! (i + 1))
     \<and> (\<forall>i. unat (highestNormalizedSymbol d) < i \<and> i < length (symbolWeights d)
          \<longrightarrow> symbolWeights d ! i = 0x4000)"
  by (auto simp: weights_ok_def list_all_iff)

text \<open>
  The specification's wording holds exactly when the inside-the-table property does and
  \<open>highestNormalizedSymbol\<close> is not the last slot.
\<close>

lemma weights_ok_claimed_iff:
  "weights_ok_claimed d \<longleftrightarrow>
     weights_ok d \<and> unat (highestNormalizedSymbol d) + 1 < length (symbolWeights d)"
  unfolding weights_ok_iff by (auto simp: weights_ok_claimed_def list_all_iff)

lemma Decode_run_calls:
  "Decode_run n a bs d = Inr (bs', d') \<Longrightarrow>
     \<exists>calls. length calls = n \<and> Decode_calls calls d = Inr d'"
proof (induction n arbitrary: bs d)
  case 0
  then show ?case by simp
next
  case (Suc n)
  from Suc.prems obtain v bs1 d1 where e: "Decode bs a d = Inr (v, bs1, d1)"
    and r: "Decode_run n a bs1 d1 = Inr (bs', d')"
    by (auto simp: andThen_eq_Inr)
  from Suc.IH [OF r] obtain calls where "length calls = n" "Decode_calls calls d1 = Inr d'"
    by blast
  with e have "length ((bs, a) # calls) = Suc n \<and> Decode_calls ((bs, a) # calls) d = Inr d'"
    by simp
  then show ?case by blast
qed

lemma occ_sum_update:
  "i < length xs \<Longrightarrow> occ_sum (xs[i := v]) + unat (xs ! i) = occ_sum xs + unat v"
proof (induction xs arbitrary: i)
  case Nil
  then show ?case by simp
next
  case (Cons x xs)
  then show ?case
    by (cases i) (auto simp: occ_sum_def)
qed

lemma occ_sum_nth_le: "i < length xs \<Longrightarrow> unat (xs ! i) \<le> occ_sum xs"
  using occ_sum_update [of i xs 0] by simp

lemma occ_sum_take_Suc:
  "i < length xs \<Longrightarrow> occ_sum (take (Suc i) xs) = occ_sum (take i xs) + unat (xs ! i)"
  by (simp add: occ_sum_def take_Suc_conv_app_nth)

lemma occ_sum_append_take_drop: "occ_sum xs = occ_sum (take i xs) + occ_sum (drop i xs)"
  unfolding occ_sum_def by (metis append_take_drop_id map_append sum_list_append)

lemma occ_sum_drop_Suc:
  "i < length xs \<Longrightarrow> occ_sum (drop i xs) = unat (xs ! i) + occ_sum (drop (Suc i) xs)"
  by (simp add: occ_sum_def flip: Cons_nth_drop_Suc)

lemma occ_sum_zero_tail:
  assumes "\<forall>i. h < i \<and> i < length xs \<longrightarrow> xs ! i = 0"
  shows "occ_sum (take (Suc h) xs) = occ_sum xs"
proof -
  have "\<forall>x \<in> set (drop (Suc h) xs). x = 0"
    using assms by (auto simp: in_set_conv_nth)
  then have "occ_sum (drop (Suc h) xs) = 0"
    by (auto simp: occ_sum_def)
  with occ_sum_append_take_drop [of xs "Suc h"] show ?thesis by simp
qed

lemma Decay_frame_refl [simp]: "Decay_frame d d"
  by (simp add: Decay_frame_def)

lemma Decay_frame_trans: "Decay_frame d e \<Longrightarrow> Decay_frame e f \<Longrightarrow> Decay_frame d f"
  by (simp add: Decay_frame_def)

lemma word_not_le_1: "\<not> (x :: u16) \<le> 1 \<longleftrightarrow> 1 < x"
  by (simp add: not_le)

lemma Decay_while_post:
  assumes "Decay_while idx d = Inr d'"
    and "0 < idx" and "idx \<le> unat (highestLearnedSymbol d)"
    and "unat (highestLearnedSymbol d) < length (symbolOccurrences d)"
    and "length (symbols d) = length (symbolOccurrences d)"
    and "\<forall>i. unat (highestLearnedSymbol d) < i \<and> i < length (symbolOccurrences d)
            \<longrightarrow> symbolOccurrences d ! i = 0"
  shows "Decay_frame d d' \<and> totalOccurrence d' = totalOccurrence d
     \<and> take idx (symbolOccurrences d') = take idx (symbolOccurrences d)
     \<and> occ_sum (symbolOccurrences d') \<le> occ_sum (symbolOccurrences d)
     \<and> (\<forall>i. unat (highestLearnedSymbol d') < i \<and> i < length (symbolOccurrences d)
            \<longrightarrow> symbolOccurrences d' ! i = 0)
     \<and> ((1 < symbolOccurrences d' ! idx \<and> idx \<le> unat (highestLearnedSymbol d')
          \<and> unat (highestLearnedSymbol d') \<le> unat (highestLearnedSymbol d))
        \<or> (symbolOccurrences d' ! idx = 0 \<and> unat (highestLearnedSymbol d') + 1 = idx))"
  using assms
proof (induction idx d rule: Decay_while.induct)
  case (1 idx d)
  let ?h = "unat (highestLearnedSymbol d)"
  let ?occ = "symbolOccurrences d"
  have idx: "idx < length ?occ" using "1.prems"(3,4) by simp
  have h0: "highestLearnedSymbol d \<noteq> 0" using "1.prems"(2,3) by auto
  then have h1: "unat (highestLearnedSymbol d - 1) = ?h - 1" by (simp add: unat_minus_one)
  show ?case
  proof (cases "?occ ! idx \<le> 1")
    case False
    with idx "1.prems"(1) have "d' = d"
      by (subst (asm) Decay_while.simps) simp
    with False "1.prems"(3,6) show ?thesis by (simp add: not_le)
  next
    case le: True
    show ?thesis
    proof (cases "?h \<le> idx")
      case True
      with "1.prems"(3) have eq: "?h = idx" by simp
      from idx le True "1.prems"(1)
      have d': "d' = d\<lparr>symbolOccurrences := ?occ[idx := 0],
                       highestLearnedSymbol := highestLearnedSymbol d - 1\<rparr>"
        by (subst (asm) Decay_while.simps) simp
      have "occ_sum (?occ[idx := 0]) \<le> occ_sum ?occ"
        using occ_sum_update [OF idx, of 0] by simp
      moreover have "\<forall>i. ?h - 1 < i \<and> i < length ?occ \<longrightarrow> ?occ[idx := 0] ! i = 0"
        using "1.prems"(6) eq idx by (auto simp: nth_list_update)
      ultimately show ?thesis
        using d' h1 eq idx "1.prems"(2) by (simp add: Decay_frame_def)
    next
      case False
      then have lt: "idx < ?h" by simp
      let ?e = "Decay_evict idx d"
      from idx le False "1.prems"(1,4,5)
      have r: "Decay_while idx ?e = Inr d'"
        by (subst (asm) Decay_while.simps) (simp add: Let_def)
      have e_occ: "symbolOccurrences ?e = ?occ[idx := ?occ ! ?h, ?h := 0]"
        and e_h: "unat (highestLearnedSymbol ?e) = ?h - 1"
        and e_len: "length (symbols ?e) = length (symbolOccurrences ?e)"
        using h1 "1.prems"(5) by (simp_all add: Decay_evict_def Let_def)
      have e_zero: "\<forall>i. unat (highestLearnedSymbol ?e) < i \<and> i < length (symbolOccurrences ?e)
            \<longrightarrow> symbolOccurrences ?e ! i = 0"
        using "1.prems"(4,6) lt by (auto simp: e_occ e_h nth_list_update)
      have pre: "idx \<le> unat (highestLearnedSymbol ?e)"
        "unat (highestLearnedSymbol ?e) < length (symbolOccurrences ?e)"
        using lt "1.prems"(4) by (simp_all add: e_occ e_h)
      have b: "?h < length ?occ \<and> ?h < length (symbols d) \<and> idx < length (symbols d)"
        using "1.prems"(4,5) idx by simp
      note IH = "1.IH" [OF idx le False refl b r "1.prems"(2) pre e_len e_zero]
      have fr: "Decay_frame d ?e \<and> totalOccurrence ?e = totalOccurrence d"
        by (simp add: Decay_frame_def Decay_evict_def Let_def)
      have tk: "take idx (symbolOccurrences ?e) = take idx ?occ"
        using lt by (simp add: e_occ)
      have "occ_sum (?occ[idx := ?occ ! ?h]) + unat (?occ ! idx) = occ_sum ?occ + unat (?occ ! ?h)"
        using occ_sum_update [OF idx] by simp
      moreover have "occ_sum (?occ[idx := ?occ ! ?h, ?h := 0]) + unat (?occ[idx := ?occ ! ?h] ! ?h)
          = occ_sum (?occ[idx := ?occ ! ?h]) + unat (0 :: u16)"
        using "1.prems"(4) by (intro occ_sum_update) simp
      moreover have "?occ[idx := ?occ ! ?h] ! ?h = ?occ ! ?h"
        using lt by simp
      ultimately have sm: "occ_sum (symbolOccurrences ?e) \<le> occ_sum ?occ"
        by (simp add: e_occ)
      have len: "length (symbolOccurrences ?e) = length ?occ"
        by (simp add: e_occ)
      from IH fr tk sm len e_h show ?thesis
        by (auto simp: Decay_frame_def)
    qed
  qed
qed

lemma unat_ucast_u16_u32 [simp]: "unat (ucast (x :: u16) :: u32) = unat x"
  by (simp add: unsigned_ucast_eq take_bit_nat_eq_self_iff)
     (rule less_trans [OF unsigned_less], simp)

lemma unat_half_u16: "unat ((x :: u16) div 2) = unat x div 2"
  by (simp add: unat_div)

lemma unat_add_u32: "unat (x :: u32) + unat y < 4294967296 \<Longrightarrow> unat (x + y) = unat x + unat y"
  using unat_add_lem [of x y] by simp

lemma Decay_for_post:
  assumes "Decay_for idx hw hi d = Inr (hw', hi', d')"
    and "0 < idx" and "idx \<le> unat (highestLearnedSymbol d) + 1"
    and "unat (highestLearnedSymbol d) < length (symbolOccurrences d)"
    and "length (symbols d) = length (symbolOccurrences d)"
    and "\<forall>i. unat (highestLearnedSymbol d) < i \<and> i < length (symbolOccurrences d)
            \<longrightarrow> symbolOccurrences d ! i = 0"
    and "unat (totalOccurrence d) = occ_sum (take idx (symbolOccurrences d))"
    and "2 * unat (totalOccurrence d) + occ_sum (drop idx (symbolOccurrences d)) \<le> K"
    and "K < 4294967296"
    and "unat hi < idx"
  shows "Decay_frame d d'
     \<and> unat (highestLearnedSymbol d') < length (symbolOccurrences d')
     \<and> (\<forall>i. unat (highestLearnedSymbol d') < i \<and> i < length (symbolOccurrences d')
            \<longrightarrow> symbolOccurrences d' ! i = 0)
     \<and> unat (totalOccurrence d') = occ_sum (symbolOccurrences d')
     \<and> 2 * unat (totalOccurrence d') \<le> K
     \<and> unat hi' \<le> unat (highestLearnedSymbol d')
     \<and> unat (highestLearnedSymbol d') \<le> unat (highestLearnedSymbol d)"
  using assms
proof (induction idx hw hi d rule: Decay_for.induct)
  case (1 idx hw hi d)
  let ?h = "unat (highestLearnedSymbol d)"
  let ?occ = "symbolOccurrences d"
  show ?case
  proof (cases "idx \<le> ?h")
    case False
    with "1.prems"(1) have r: "hw' = hw" "hi' = hi" "d' = d"
      by (subst (asm) Decay_for.simps, simp)+
    from False "1.prems"(3) have eq: "idx = Suc ?h" by simp
    have "occ_sum (take idx ?occ) = occ_sum ?occ"
      unfolding eq using "1.prems"(6) by (rule occ_sum_zero_tail)
    with r eq "1.prems" show ?thesis by simp
  next
    case True
    from True "1.prems"(1) obtain d1 where d1: "Decay_while idx d = Inr d1"
      by (subst (asm) Decay_for.simps) (auto split: sum.splits)
    note w = Decay_while_post [OF d1 "1.prems"(2) True "1.prems"(4,5,6)]
    let ?occ1 = "symbolOccurrences d1"
    let ?h1 = "unat (highestLearnedSymbol d1)"
    have len1: "length ?occ1 = length ?occ" "length (symbols d1) = length ?occ1"
      using w "1.prems"(5) by (simp_all add: Decay_frame_def)
    have idx: "idx < length ?occ1" using True "1.prems"(4) len1 by simp
    have tk: "take idx ?occ1 = take idx ?occ" and tot1: "totalOccurrence d1 = totalOccurrence d"
      and sm: "occ_sum ?occ1 \<le> occ_sum ?occ"
      and z1: "\<forall>i. ?h1 < i \<and> i < length ?occ1 \<longrightarrow> ?occ1 ! i = 0"
      using w len1 by simp_all
    have dr: "occ_sum (drop idx ?occ1) \<le> occ_sum (drop idx ?occ)"
      using sm tk occ_sum_append_take_drop [of ?occ1 idx] occ_sum_append_take_drop [of ?occ idx]
      by simp
    show ?thesis
    proof (cases "?occ1 ! idx = 0")
      case z: True
      with True "1.prems"(1) d1 idx have r: "hw' = hw" "hi' = hi" "d' = d1"
        by (subst (asm) Decay_for.simps, simp)+
      from z w have eq: "idx = Suc ?h1" by auto
      have "occ_sum (take idx ?occ1) = occ_sum ?occ1"
        unfolding eq using z1 by (rule occ_sum_zero_tail)
      then have "unat (totalOccurrence d1) = occ_sum ?occ1"
        using tk tot1 "1.prems"(7) by simp
      moreover have "2 * unat (totalOccurrence d1) \<le> K"
        using tot1 "1.prems"(8) by simp
      moreover have "unat hi \<le> ?h1" "?h1 \<le> ?h" "?h1 < length ?occ1"
        using eq "1.prems"(10) True idx by simp_all
      moreover have "Decay_frame d d1" using w by simp
      ultimately show ?thesis
        using r z1 by simp
    next
      case nz: False
      with w have big: "1 < ?occ1 ! idx" and le1: "idx \<le> ?h1" and hle: "?h1 \<le> ?h"
        by auto
      let ?half = "?occ1 ! idx div 2"
      let ?d2 = "d1\<lparr>symbolOccurrences := ?occ1[idx := ?half],
                      totalOccurrence := totalOccurrence d1 + ucast ?half\<rparr>"
      have half: "2 * unat ?half \<le> unat (?occ1 ! idx)"
        by (simp add: unat_half_u16)
      have dS: "occ_sum (drop idx ?occ1) = unat (?occ1 ! idx) + occ_sum (drop (Suc idx) ?occ1)"
        using idx by (rule occ_sum_drop_Suc)
      have bound: "2 * (unat (totalOccurrence d) + unat ?half) + occ_sum (drop (Suc idx) ?occ1) \<le> K"
        using half dS dr "1.prems"(8) by simp
      then have tot2: "unat (totalOccurrence d1 + ucast ?half) = unat (totalOccurrence d) + unat ?half"
        using "1.prems"(9) by (simp add: tot1 unat_add_u32)
      have p3: "idx + 1 \<le> unat (highestLearnedSymbol ?d2) + 1" using le1 by simp
      have p4: "unat (highestLearnedSymbol ?d2) < length (symbolOccurrences ?d2)"
        using le1 hle "1.prems"(4) len1 by simp
      have p5: "length (symbols ?d2) = length (symbolOccurrences ?d2)"
        using len1 by simp
      have p6: "\<forall>i. unat (highestLearnedSymbol ?d2) < i \<and> i < length (symbolOccurrences ?d2)
            \<longrightarrow> symbolOccurrences ?d2 ! i = 0"
        using z1 le1 by (auto simp: nth_list_update)
      have "occ_sum (take (Suc idx) (?occ1[idx := ?half]))
              = occ_sum (take idx (?occ1[idx := ?half])) + unat (?occ1[idx := ?half] ! idx)"
        using idx by (intro occ_sum_take_Suc) simp
      then have p7: "unat (totalOccurrence ?d2) = occ_sum (take (idx + 1) (symbolOccurrences ?d2))"
        using idx tk "1.prems"(7) tot2 by simp
      have p8: "2 * unat (totalOccurrence ?d2) + occ_sum (drop (idx + 1) (symbolOccurrences ?d2)) \<le> K"
        using bound tot2 by simp
      have idx32: "idx < 4294967296"
        using True unat_u32_less [of "highestLearnedSymbol d"] by simp
      have p10a: "unat (of_nat idx :: u32) < idx + 1"
        using idx32 by (simp add: unsigned_of_nat take_bit_nat_eq_self)
      have p10b: "unat hi < idx + 1" using "1.prems"(10) by simp
      have fr: "Decay_frame d ?d2" using w by (simp add: Decay_frame_def)
      have "Decay_frame ?d2 d'
         \<and> unat (highestLearnedSymbol d') < length (symbolOccurrences d')
         \<and> (\<forall>i. unat (highestLearnedSymbol d') < i \<and> i < length (symbolOccurrences d')
            \<longrightarrow> symbolOccurrences d' ! i = 0)
         \<and> unat (totalOccurrence d') = occ_sum (symbolOccurrences d')
         \<and> 2 * unat (totalOccurrence d') \<le> K
         \<and> unat hi' \<le> unat (highestLearnedSymbol d')
         \<and> unat (highestLearnedSymbol d') \<le> unat (highestLearnedSymbol ?d2)"
      proof (cases "hw < ucast ?half")
        case lt: True
        with True "1.prems"(1) d1 idx nz
        have r: "Decay_for (idx + 1) (ucast ?half) (of_nat idx) ?d2 = Inr (hw', hi', d')"
          by (subst (asm) Decay_for.simps) (simp add: Let_def)
        show ?thesis
          by (rule "1.IH"(1) [OF True d1 idx nz refl refl lt r _ p3 p4 p5 p6 p7 p8 "1.prems"(9) p10a])
             simp
      next
        case ge: False
        with True "1.prems"(1) d1 idx nz
        have r: "Decay_for (idx + 1) hw hi ?d2 = Inr (hw', hi', d')"
          by (subst (asm) Decay_for.simps) (simp add: Let_def)
        show ?thesis
          by (rule "1.IH"(2) [OF True d1 idx nz refl refl ge r _ p3 p4 p5 p6 p7 p8 "1.prems"(9) p10b])
             simp
      qed
      with fr hle show ?thesis
        by (auto intro: Decay_frame_trans)
    qed
  qed
qed

lemma occ_sum_swap:
  assumes "i < length xs" and "h < length xs"
  shows "occ_sum (xs[h := xs ! i, i := xs ! h]) = occ_sum xs"
proof (cases "h = i")
  case True
  then show ?thesis by simp
next
  case False
  have "occ_sum (xs[h := xs ! i]) + unat (xs ! h) = occ_sum xs + unat (xs ! i)"
    using assms(2) by (rule occ_sum_update)
  moreover have "occ_sum (xs[h := xs ! i, i := xs ! h]) + unat (xs[h := xs ! i] ! i)
        = occ_sum (xs[h := xs ! i]) + unat (xs ! h)"
    using assms(1) by (intro occ_sum_update) simp
  moreover have "xs[h := xs ! i] ! i = xs ! i"
    using False by simp
  ultimately show ?thesis by simp
qed

lemma Decay_swap_post:
  assumes "Decay_swap hw hi d = Inr d'"
    and "unat hi \<le> unat (highestLearnedSymbol d)"
    and "unat (highestLearnedSymbol d) < length (symbolOccurrences d)"
    and "\<forall>i. unat (highestLearnedSymbol d) < i \<and> i < length (symbolOccurrences d)
            \<longrightarrow> symbolOccurrences d ! i = 0"
  shows "Decay_frame d d' \<and> highestLearnedSymbol d' = highestLearnedSymbol d
     \<and> totalOccurrence d' = totalOccurrence d
     \<and> occ_sum (symbolOccurrences d') = occ_sum (symbolOccurrences d)
     \<and> (\<forall>i. unat (highestLearnedSymbol d') < i \<and> i < length (symbolOccurrences d')
            \<longrightarrow> symbolOccurrences d' ! i = 0)"
proof (cases "hw \<noteq> 0 \<and> hi \<noteq> highestLearnedSymbol d")
  case False
  with assms(1) have "d' = d"
    by (auto simp: Decay_swap_def Let_def)
  with assms(4) show ?thesis by simp
next
  case True
  let ?h = "unat (highestLearnedSymbol d)" and ?i = "unat hi"
  let ?occ = "symbolOccurrences d"
  from True assms(1)
  have d': "d' = d\<lparr>symbolOccurrences := ?occ[?h := ?occ ! ?i, ?i := ?occ ! ?h],
                  symbols := (symbols d)[?h := symbols d ! ?i, ?i := symbols d ! ?h]\<rparr>"
    by (auto simp: Decay_swap_def Let_def split: if_splits)
  have i: "?i < length ?occ" using assms(2,3) by simp
  have "occ_sum (?occ[?h := ?occ ! ?i, ?i := ?occ ! ?h]) = occ_sum ?occ"
    using i assms(3) by (rule occ_sum_swap)
  moreover have "\<forall>k. ?h < k \<and> k < length ?occ \<longrightarrow> ?occ[?h := ?occ ! ?i, ?i := ?occ ! ?h] ! k = 0"
    using assms(2,4) by (auto simp: nth_list_update)
  ultimately show ?thesis
    by (simp add: d' Decay_frame_def)
qed

lemma fill_weights_post:
  assumes "fill_weights d = Inr d'"
  shows "d' = d\<lparr>symbolWeights := symbolWeights d'\<rparr>
     \<and> length (symbolWeights d') = length (symbolWeights d)
     \<and> unat (highestLearnedSymbol d) + 1 \<le> length (symbolWeights d)
     \<and> take (unat (highestLearnedSymbol d) + 1) (symbolWeights d')
         = take (unat (highestLearnedSymbol d) + 1) (symbolWeights d)
     \<and> (\<forall>i. unat (highestLearnedSymbol d) < i \<and> i < length (symbolWeights d)
           \<longrightarrow> symbolWeights d' ! i = 0x4000)"
  using assms
  by (auto simp: fill_weights_def fill_from_def andThen_eq_Inr Oodle1Decoder_One_def nth_append
      split: if_splits)

lemma Decay_post:
  assumes "Decay d = Inr d'" and "occ_inv d"
  shows "occ_inv d' \<and> same_schedule d d'
     \<and> unat (totalOccurrence d') \<le> unat (totalOccurrence d) div 2 + 1
     \<and> length (symbolOccurrences d') = length (symbolOccurrences d)"
proof -
  let ?occ = "symbolOccurrences d"
  let ?K = "occ_sum ?occ"
  from assms(2) have len: "length (symbols d) = length ?occ" "length (symbolWeights d) = length ?occ"
    and n32: "length ?occ < 4294967296"
    and h: "unat (highestLearnedSymbol d) < length ?occ"
    and z: "\<forall>i. unat (highestLearnedSymbol d) < i \<and> i < length ?occ \<longrightarrow> ?occ ! i = 0"
    and t: "unat (totalOccurrence d) = ?K"
    by (simp_all add: occ_inv_def)
  from h have ne: "0 < length ?occ" by (cases ?occ) simp_all
  let ?half0 = "?occ ! 0 div 2"
  let ?d0 = "d\<lparr>symbolOccurrences := ?occ[0 := ?half0], totalOccurrence := ucast ?half0\<rparr>"
  from assms(1) ne obtain hw hi d1 d2 where
    f: "Decay_for 1 0 0 ?d0 = Inr (hw, hi, d1)"
    and s: "Decay_swap hw hi d1 = Inr d2"
    and w: "fill_weights (Decay_escape d2) = Inr d'"
    by (auto simp: Decay_def Let_def andThen_eq_Inr)
  have K32: "?K < 4294967296"
    using t unat_u32_less [of "totalOccurrence d"] by simp
  have p7: "unat (totalOccurrence ?d0) = occ_sum (take 1 (symbolOccurrences ?d0))"
    using ne by (cases ?occ) (simp_all add: occ_sum_def)
  have "?K = unat (?occ ! 0) + occ_sum (drop (Suc 0) ?occ)"
    using occ_sum_drop_Suc [OF ne] by simp
  moreover have "2 * unat ?half0 \<le> unat (?occ ! 0)"
    by (simp add: unat_half_u16)
  moreover have "drop (Suc 0) (?occ[0 := ?half0]) = drop (Suc 0) ?occ"
    by (cases ?occ) simp_all
  ultimately have p8: "2 * unat (totalOccurrence ?d0) + occ_sum (drop 1 (symbolOccurrences ?d0)) \<le> ?K"
    by simp
  have p6: "\<forall>i. unat (highestLearnedSymbol ?d0) < i \<and> i < length (symbolOccurrences ?d0)
            \<longrightarrow> symbolOccurrences ?d0 ! i = 0"
    using z by (auto simp: nth_list_update)
  have ff: "Decay_frame ?d0 d1
     \<and> unat (highestLearnedSymbol d1) < length (symbolOccurrences d1)
     \<and> (\<forall>i. unat (highestLearnedSymbol d1) < i \<and> i < length (symbolOccurrences d1)
            \<longrightarrow> symbolOccurrences d1 ! i = 0)
     \<and> unat (totalOccurrence d1) = occ_sum (symbolOccurrences d1)
     \<and> 2 * unat (totalOccurrence d1) \<le> ?K
     \<and> unat hi \<le> unat (highestLearnedSymbol d1)
     \<and> unat (highestLearnedSymbol d1) \<le> unat (highestLearnedSymbol ?d0)"
    using h len by (intro Decay_for_post [OF f _ _ _ _ p6 p7 p8 K32]) simp_all
  then have f1: "Decay_frame ?d0 d1" and h1: "unat (highestLearnedSymbol d1) < length (symbolOccurrences d1)"
    and z1: "\<forall>i. unat (highestLearnedSymbol d1) < i \<and> i < length (symbolOccurrences d1)
            \<longrightarrow> symbolOccurrences d1 ! i = 0"
    and t1: "unat (totalOccurrence d1) = occ_sum (symbolOccurrences d1)"
    and b1: "2 * unat (totalOccurrence d1) \<le> ?K"
    and hi1: "unat hi \<le> unat (highestLearnedSymbol d1)"
    by simp_all
  from Decay_swap_post [OF s hi1 h1 z1]
  have f2: "Decay_frame d1 d2" and h2: "highestLearnedSymbol d2 = highestLearnedSymbol d1"
    and t2: "totalOccurrence d2 = totalOccurrence d1"
    and s2: "occ_sum (symbolOccurrences d2) = occ_sum (symbolOccurrences d1)"
    and z2: "\<forall>i. unat (highestLearnedSymbol d2) < i \<and> i < length (symbolOccurrences d2)
            \<longrightarrow> symbolOccurrences d2 ! i = 0"
    by simp_all
  have fr: "Decay_frame d d2"
    using f1 f2 by (simp add: Decay_frame_def)
  then have len2: "length (symbolOccurrences d2) = length ?occ" "length (symbols d2) = length ?occ"
    "symbolWeights d2 = symbolWeights d"
    using len by (simp_all add: Decay_frame_def)
  have ne2: "0 < length (symbolOccurrences d2)" using len2 ne by simp
  let ?d3 = "Decay_escape d2"
  have e: "Decay_frame d2 ?d3 \<and> highestLearnedSymbol ?d3 = highestLearnedSymbol d2
     \<and> unat (totalOccurrence ?d3) = occ_sum (symbolOccurrences ?d3)
     \<and> unat (totalOccurrence ?d3) \<le> unat (totalOccurrence d2) + 1
     \<and> (\<forall>i. unat (highestLearnedSymbol ?d3) < i \<and> i < length (symbolOccurrences ?d3)
            \<longrightarrow> symbolOccurrences ?d3 ! i = 0)"
  proof (cases "highestLearnedSymbol d2 \<noteq> usedSymbolCount d2 \<and> symbolOccurrences d2 ! 0 = 0")
    case False
    then have "?d3 = d2" by (auto simp: Decay_escape_def)
    with z2 t1 t2 s2 show ?thesis by simp
  next
    case True
    then have d3: "?d3 = d2\<lparr>symbolOccurrences := (symbolOccurrences d2)[0 := 1],
                          totalOccurrence := totalOccurrence d2 + 1\<rparr>"
      by (simp add: Decay_escape_def)
    have "occ_sum ((symbolOccurrences d2)[0 := 1]) + unat (symbolOccurrences d2 ! 0)
            = occ_sum (symbolOccurrences d2) + unat (1 :: u16)"
      using ne2 by (rule occ_sum_update)
    with True have "occ_sum ((symbolOccurrences d2)[0 := 1]) = occ_sum (symbolOccurrences d2) + 1"
      by simp
    moreover have "unat (totalOccurrence d2 + 1) = unat (totalOccurrence d2) + 1"
      using b1 K32 t2 by (simp add: unat_add_u32)
    ultimately show ?thesis
      using z2 t1 t2 s2 by (auto simp: d3 Decay_frame_def nth_list_update)
  qed
  from fill_weights_post [OF w]
  have d': "d' = ?d3\<lparr>symbolWeights := symbolWeights d'\<rparr>"
    and wl: "length (symbolWeights d') = length (symbolWeights ?d3)"
    by simp_all
  have fr3: "Decay_frame d ?d3"
    using fr e by (simp add: Decay_frame_def)
  have len1: "length (symbolOccurrences d1) = length ?occ"
    using f1 by (simp add: Decay_frame_def)
  have "occ_inv ?d3"
    using fr3 e len n32 h1 h2 len1 len2 by (simp add: occ_inv_def Decay_frame_def)
  then have "occ_inv d'"
    using wl by (subst d') (simp add: occ_inv_def)
  moreover have "same_schedule d d'"
    using fr3 by (subst d') (simp add: same_schedule_def Decay_frame_def)
  moreover have "unat (totalOccurrence d') \<le> unat (totalOccurrence d) div 2 + 1"
  proof -
    have eq: "totalOccurrence d' = totalOccurrence ?d3" by (subst d') simp
    have a: "unat (totalOccurrence ?d3) \<le> unat (totalOccurrence d1) + 1"
      using e t2 by simp
    have b: "unat (totalOccurrence d1) \<le> unat (totalOccurrence d) div 2"
      using b1 t by linarith
    show ?thesis
      unfolding eq using a b by linarith
  qed
  moreover have "length (symbolOccurrences d') = length ?occ"
    using fr3 by (subst d') (simp add: Decay_frame_def)
  ultimately show ?thesis by simp
qed

lemma occ_sum_take_le: "occ_sum (take i xs) \<le> occ_sum xs"
  using occ_sum_append_take_drop [of xs i] by simp

lemma unat_ucast_u32_u16: "unat (x :: u32) < 65536 \<Longrightarrow> unat (ucast x :: u16) = unat x"
  by (simp add: unsigned_ucast_eq take_bit_nat_eq_self)

lemma unat_mult_u32: "unat (x :: u32) * unat y < 4294967296 \<Longrightarrow> unat (x * y) = unat x * unat y"
  using unat_mult_lem [of x y] by simp

lemma renorm_step_arith:
  "8 * C \<le> Q \<Longrightarrow> 8 * A \<le> P \<Longrightarrow> R = P + Q \<Longrightarrow> 8 * (A + C) \<le> (R :: nat)"
  by arith

lemma Renormalize_for_post:
  assumes "Renormalize_for idx q acc d = Inr d'"
    and "0 < idx" and "idx \<le> unat (highestLearnedSymbol d) + 1"
    and "unat (highestLearnedSymbol d) < length (symbolOccurrences d)"
    and "length (symbolWeights d) = length (symbolOccurrences d)"
    and "unat q * occ_sum (symbolOccurrences d) \<le> 131072"
    and "8 * unat acc \<le> unat q * occ_sum (take idx (symbolOccurrences d))"
    and "\<forall>i. i + 1 < idx \<longrightarrow> symbolWeights d ! i \<le> symbolWeights d ! (i + 1)"
    and "unat (symbolWeights d ! (idx - 1)) \<le> unat acc"
  shows "d' = d\<lparr>symbolWeights := symbolWeights d'\<rparr>
     \<and> length (symbolWeights d') = length (symbolWeights d)
     \<and> (\<forall>i. i + 1 \<le> unat (highestLearnedSymbol d)
            \<longrightarrow> symbolWeights d' ! i \<le> symbolWeights d' ! (i + 1))
     \<and> unat (symbolWeights d' ! unat (highestLearnedSymbol d)) \<le> 16384"
  using assms
proof (induction idx q acc d rule: Renormalize_for.induct)
  case (1 idx q acc d)
  let ?h = "unat (highestLearnedSymbol d)"
  let ?occ = "symbolOccurrences d"
  let ?w = "symbolWeights d"
  have "unat q * occ_sum (take idx ?occ) \<le> unat q * occ_sum ?occ"
    by (simp add: occ_sum_take_le)
  with "1.prems"(6,7) have acc: "unat acc \<le> 16384" by linarith
  show ?case
  proof (cases "idx \<le> ?h")
    case False
    with "1.prems"(1) have d': "d' = d"
      by (subst (asm) Renormalize_for.simps) simp
    from False "1.prems"(3) have eq: "idx = Suc ?h" by simp
    show ?thesis
      using "1.prems"(8,9) acc by (simp add: d' eq)
  next
    case True
    then have idx: "idx < length ?w \<and> idx < length ?occ"
      using "1.prems"(4,5) by simp
    let ?c = "(ucast (?occ ! idx) * q) div 8 :: u32"
    let ?d2 = "d\<lparr>symbolWeights := ?w[idx := ucast acc]\<rparr>"
    from True idx "1.prems"(1)
    have r: "Renormalize_for (idx + 1) q (acc + ?c) ?d2 = Inr d'"
      by (subst (asm) Renormalize_for.simps) simp
    have "unat (?occ ! idx) \<le> occ_sum ?occ"
      using idx by (simp add: occ_sum_nth_le)
    then have "unat (?occ ! idx) * unat q \<le> unat q * occ_sum ?occ"
      by (simp add: mult.commute)
    with "1.prems"(6) have prod: "unat (?occ ! idx) * unat q \<le> 131072" by linarith
    then have "unat (ucast (?occ ! idx) * q) = unat (?occ ! idx) * unat q"
      by (subst unat_mult_u32) simp_all
    then have c: "unat ?c = (unat (?occ ! idx) * unat q) div 8"
      by (simp add: unat_div)
    with prod have c_le: "unat ?c \<le> 16384" by simp
    have acc': "unat (acc + ?c) = unat acc + unat ?c"
      using acc c_le by (intro unat_add_u32) simp
    have w_idx: "unat (ucast acc :: u16) = unat acc"
      using acc by (intro unat_ucast_u32_u16) simp
    have S: "occ_sum (take (Suc idx) ?occ) = occ_sum (take idx ?occ) + unat (?occ ! idx)"
      using idx by (simp add: occ_sum_take_Suc)
    have c8: "8 * unat ?c \<le> unat (?occ ! idx) * unat q"
      unfolding c by simp
    have "unat q * occ_sum (take (Suc idx) ?occ)
            = unat q * occ_sum (take idx ?occ) + unat (?occ ! idx) * unat q"
      unfolding S by (simp add: distrib_left mult.commute)
    with c8 "1.prems"(7) have "8 * (unat acc + unat ?c) \<le> unat q * occ_sum (take (Suc idx) ?occ)"
      by (rule renorm_step_arith)
    then have p7: "8 * unat (acc + ?c)
           \<le> unat q * occ_sum (take (idx + 1) (symbolOccurrences ?d2))"
      unfolding acc' by simp
    have p8: "\<forall>i. i + 1 < idx + 1
           \<longrightarrow> symbolWeights ?d2 ! i \<le> symbolWeights ?d2 ! (i + 1)"
    proof (intro allI impI)
      fix i assume i: "i + 1 < idx + 1"
      show "symbolWeights ?d2 ! i \<le> symbolWeights ?d2 ! (i + 1)"
      proof (cases "i + 1 = idx")
        case True
        then have "i = idx - 1" "i \<noteq> idx" by simp_all
        with "1.prems"(9) w_idx idx True show ?thesis
          by (simp add: word_le_nat_alt)
      next
        case False
        with i have "i + 1 < idx" by simp
        with "1.prems"(8) show ?thesis by simp
      qed
    qed
    have p9: "unat (symbolWeights ?d2 ! (idx + 1 - 1)) \<le> unat (acc + ?c)"
      using idx w_idx acc' by simp
    have IH: "d' = ?d2\<lparr>symbolWeights := symbolWeights d'\<rparr>
     \<and> length (symbolWeights d') = length (symbolWeights ?d2)
     \<and> (\<forall>i. i + 1 \<le> unat (highestLearnedSymbol ?d2)
            \<longrightarrow> symbolWeights d' ! i \<le> symbolWeights d' ! (i + 1))
     \<and> unat (symbolWeights d' ! unat (highestLearnedSymbol ?d2)) \<le> 16384"
      using True "1.prems"(4,5,6)
      by (intro "1.IH" [OF True idx r _ _ _ _ _ p7 p8 p9]) simp_all
    then have "d' = ?d2\<lparr>symbolWeights := symbolWeights d'\<rparr>" by simp
    then have "d' = d\<lparr>symbolWeights := symbolWeights d'\<rparr>" by simp
    with IH show ?thesis by simp
  qed
qed

lemma Renormalize_post:
  assumes "Renormalize d = Inr d'" and "occ_inv d"
  shows "symbolOccurrences d' = symbolOccurrences d \<and> symbols d' = symbols d
     \<and> totalOccurrence d' = totalOccurrence d
     \<and> highestLearnedSymbol d' = highestLearnedSymbol d
     \<and> usedSymbolCount d' = usedSymbolCount d
     \<and> decayThreshold d' = decayThreshold d \<and> renormInterval d' = renormInterval d
     \<and> highestNormalizedSymbol d' = highestLearnedSymbol d
     \<and> length (symbolWeights d') = length (symbolWeights d)
     \<and> weights_ok d'
     \<and> (if rapidRenormInterval d * 2 < renormInterval d
         then rapidRenormInterval d' = rapidRenormInterval d * 2
              \<and> nextRenormWeight d' = totalOccurrence d + rapidRenormInterval d * 2
         else rapidRenormInterval d' = rapidRenormInterval d
              \<and> nextRenormWeight d' = totalOccurrence d + renormInterval d)"
proof -
  let ?occ = "symbolOccurrences d"
  let ?h = "unat (highestLearnedSymbol d)"
  from assms(2) have len: "length (symbolWeights d) = length ?occ"
    and h: "?h < length ?occ"
    and t: "unat (totalOccurrence d) = occ_sum ?occ"
    by (simp_all add: occ_inv_def)
  from h have ne: "0 < length ?occ" by (cases ?occ) simp_all
  from assms(1) have t0: "totalOccurrence d \<noteq> 0"
    by (auto simp: Renormalize_def split: if_splits)
  let ?q = "0x20000 div totalOccurrence d"
  let ?d0 = "d\<lparr>symbolWeights := (symbolWeights d)[0 := 0]\<rparr>"
  let ?acc = "(ucast (?occ ! 0) * ?q) div 8 :: u32"
  from assms(1) t0 ne len obtain d1 where
    f: "Renormalize_for 1 ?q ?acc ?d0 = Inr d1"
    and w: "fill_weights (Renormalize_schedule d1) = Inr d'"
    by (auto simp: Renormalize_def Let_def andThen_eq_Inr)
  have q: "unat ?q = 131072 div unat (totalOccurrence d)"
    by (simp add: unat_div)
  have p6: "unat ?q * occ_sum (symbolOccurrences ?d0) \<le> 131072"
    unfolding q using t by simp
  have "unat (?occ ! 0) \<le> occ_sum ?occ"
    using ne by (rule occ_sum_nth_le)
  then have "unat (?occ ! 0) * unat ?q \<le> unat ?q * occ_sum ?occ"
    by (simp add: mult.commute)
  moreover have "unat ?q * occ_sum ?occ \<le> 131072"
    using p6 by simp
  ultimately have prod: "unat (?occ ! 0) * unat ?q \<le> 131072" by linarith
  then have "unat (ucast (?occ ! 0) * ?q) = unat (?occ ! 0) * unat ?q"
    by (subst unat_mult_u32) simp_all
  then have acc: "unat ?acc = (unat (?occ ! 0) * unat ?q) div 8"
    by (simp add: unat_div)
  have tk1: "occ_sum (take 1 ?occ) = unat (?occ ! 0)"
    using ne by (cases ?occ) (simp_all add: occ_sum_def)
  have "8 * unat ?acc \<le> unat (?occ ! 0) * unat ?q"
    unfolding acc by simp
  then have p7: "8 * unat ?acc \<le> unat ?q * occ_sum (take 1 (symbolOccurrences ?d0))"
    using tk1 by (simp add: mult.commute)
  have p9: "unat (symbolWeights ?d0 ! (1 - 1)) \<le> unat ?acc"
    using ne len by simp
  have post: "d1 = ?d0\<lparr>symbolWeights := symbolWeights d1\<rparr>
     \<and> length (symbolWeights d1) = length (symbolWeights ?d0)
     \<and> (\<forall>i. i + 1 \<le> unat (highestLearnedSymbol ?d0)
            \<longrightarrow> symbolWeights d1 ! i \<le> symbolWeights d1 ! (i + 1))
     \<and> unat (symbolWeights d1 ! unat (highestLearnedSymbol ?d0)) \<le> 16384"
    using h len by (intro Renormalize_for_post [OF f _ _ _ _ p6 p7 _ p9]) simp_all
  then have d1: "d1 = d\<lparr>symbolWeights := symbolWeights d1\<rparr>"
    and l1: "length (symbolWeights d1) = length (symbolWeights d)"
    and m1: "\<forall>i. i + 1 \<le> ?h \<longrightarrow> symbolWeights d1 ! i \<le> symbolWeights d1 ! (i + 1)"
    and top: "unat (symbolWeights d1 ! ?h) \<le> 16384"
    by simp_all
  let ?d2 = "Renormalize_schedule d1"
  have hls2: "highestLearnedSymbol ?d2 = highestLearnedSymbol d"
    and w2: "symbolWeights ?d2 = symbolWeights d1"
    by (subst d1, simp add: Renormalize_schedule_def Let_def)+
  from fill_weights_post [OF w]
  have d': "d' = ?d2\<lparr>symbolWeights := symbolWeights d'\<rparr>"
    and l': "length (symbolWeights d') = length (symbolWeights d)"
    and tk: "take (?h + 1) (symbolWeights d') = take (?h + 1) (symbolWeights d1)"
    and ab: "\<forall>i. ?h < i \<and> i < length (symbolWeights d) \<longrightarrow> symbolWeights d' ! i = 0x4000"
    by (simp_all add: hls2 w2 l1)
  have low: "symbolWeights d' ! i = symbolWeights d1 ! i" if "i \<le> ?h" for i
  proof -
    have "take (?h + 1) (symbolWeights d') ! i = take (?h + 1) (symbolWeights d1) ! i"
      by (simp only: tk)
    with that show ?thesis by simp
  qed
  have fields: "symbolOccurrences d' = symbolOccurrences d \<and> symbols d' = symbols d
     \<and> totalOccurrence d' = totalOccurrence d
     \<and> highestLearnedSymbol d' = highestLearnedSymbol d
     \<and> usedSymbolCount d' = usedSymbolCount d
     \<and> decayThreshold d' = decayThreshold d \<and> renormInterval d' = renormInterval d
     \<and> highestNormalizedSymbol d' = highestLearnedSymbol d
     \<and> (if rapidRenormInterval d * 2 < renormInterval d
         then rapidRenormInterval d' = rapidRenormInterval d * 2
              \<and> nextRenormWeight d' = totalOccurrence d + rapidRenormInterval d * 2
         else rapidRenormInterval d' = rapidRenormInterval d
              \<and> nextRenormWeight d' = totalOccurrence d + renormInterval d)"
    by (subst d', subst d1, simp add: Renormalize_schedule_def Let_def)+
  have "weights_ok d'"
    unfolding weights_ok_iff
  proof (intro conjI allI impI)
    fix i assume i: "i \<le> unat (highestNormalizedSymbol d') \<and> i + 1 < length (symbolWeights d')"
    then have ih: "i \<le> ?h" using fields by simp
    show "symbolWeights d' ! i \<le> symbolWeights d' ! (i + 1)"
    proof (cases "i + 1 \<le> ?h")
      case True
      with m1 low [of i] low [of "i + 1"] ih show ?thesis by simp
    next
      case False
      with ih have eq: "i = ?h" by simp
      have "symbolWeights d' ! (i + 1) = 0x4000"
        using ab i l' eq by simp
      moreover have "unat (symbolWeights d' ! i) \<le> 16384"
        using low [of i] top eq by simp
      ultimately show ?thesis by (simp add: word_le_nat_alt)
    qed
  next
    fix i assume "unat (highestNormalizedSymbol d') < i \<and> i < length (symbolWeights d')"
    then show "symbolWeights d' ! i = 0x4000"
      using ab fields l' by simp
  qed
  with fields l' show ?thesis by simp
qed

lemma Peek_less: "Peek one bs = Inr (z, bs') \<Longrightarrow> z < one"
proof -
  assume "Peek one bs = Inr (z, bs')"
  then have o: "one \<noteq> 0" and z: "z \<le> one - 1"
    by (auto simp: Peek_def andThen_eq_Inr Let_def split: if_splits)
  from o have "unat (one - 1) = unat one - 1" "0 < unat one"
    by (simp_all add: unat_minus_one unat_gt_0)
  with z have "unat z < unat one"
    by (simp add: word_le_nat_alt)
  then show ?thesis
    by (simp add: word_less_nat_alt)
qed

lemma Decode_scan_le:
  assumes "Decode_scan i z d = Inr k" and "i \<le> unat (highestNormalizedSymbol d)"
    and "z < 0x4000"
    and "\<forall>j. unat (highestNormalizedSymbol d) < j \<and> j < length (symbolWeights d)
            \<longrightarrow> symbolWeights d ! j = 0x4000"
  shows "k \<le> unat (highestNormalizedSymbol d)"
  using assms
proof (induction i z d rule: Decode_scan.induct)
  case (1 i z d)
  from "1.prems"(1,2) have b: "i + 1 < length (symbolWeights d)"
    by (subst (asm) Decode_scan.simps) (auto split: if_splits)
  show ?case
  proof (cases "z < ucast (symbolWeights d ! (i + 1))")
    case True
    with "1.prems"(1,2) b have "k = i"
      by (subst (asm) Decode_scan.simps) simp
    with "1.prems"(2) show ?thesis by simp
  next
    case False
    with "1.prems"(1,2) b have r: "Decode_scan (i + 1) z d = Inr k"
      by (subst (asm) Decode_scan.simps) simp
    have "i + 1 \<le> unat (highestNormalizedSymbol d)"
    proof (rule ccontr)
      assume "\<not> i + 1 \<le> unat (highestNormalizedSymbol d)"
      with b "1.prems"(4) have "symbolWeights d ! (i + 1) = 0x4000" by simp
      with False "1.prems"(3) show False by simp
    qed
    from "1.IH" [OF "1.prems"(2) b False r this "1.prems"(3,4)] show ?thesis .
  qed
qed

lemma unat_add_u16: "unat (x :: u16) + unat y < 65536 \<Longrightarrow> unat (x + y) = unat x + unat y"
  using unat_add_lem [of x y] by simp

lemma unat_sub_u32: "(y :: u32) \<le> x \<Longrightarrow> unat (x - y) = unat x - unat y"
  by (rule unat_sub)

text \<open>Adding \<open>c\<close> occurrences to a live slot.\<close>

lemma occ_inv_bump:
  assumes "occ_inv d" and "k \<le> unat (highestLearnedSymbol d)"
    and "unat (totalOccurrence d) + n < 65536"
    and "unat c16 = n" and "unat c32 = n"
  shows "occ_inv (d\<lparr>symbolOccurrences := (symbolOccurrences d)[k := symbolOccurrences d ! k + c16],
                    totalOccurrence := totalOccurrence d + c32\<rparr>)
     \<and> unat (totalOccurrence d + c32) = unat (totalOccurrence d) + n"
proof -
  let ?occ = "symbolOccurrences d"
  from assms(1) have h: "unat (highestLearnedSymbol d) < length ?occ"
    and t: "unat (totalOccurrence d) = occ_sum ?occ"
    and z: "\<forall>i. unat (highestLearnedSymbol d) < i \<and> i < length ?occ \<longrightarrow> ?occ ! i = 0"
    by (simp_all add: occ_inv_def)
  have k: "k < length ?occ" using h assms(2) by simp
  then have "unat (?occ ! k) \<le> occ_sum ?occ" by (rule occ_sum_nth_le)
  with t assms(3,4) have "unat (?occ ! k + c16) = unat (?occ ! k) + n"
    by (subst unat_add_u16) simp_all
  with occ_sum_update [OF k, of "?occ ! k + c16"]
  have s: "occ_sum (?occ[k := ?occ ! k + c16]) = occ_sum ?occ + n" by simp
  have tt: "unat (totalOccurrence d + c32) = unat (totalOccurrence d) + n"
    using assms(3,5) by (subst unat_add_u32) simp_all
  have "\<forall>i. unat (highestLearnedSymbol d) < i \<and> i < length ?occ
           \<longrightarrow> ?occ[k := ?occ ! k + c16] ! i = 0"
    using z assms(2) by (auto simp: nth_list_update)
  with assms(1) s tt t show ?thesis
    by (simp add: occ_inv_def)
qed

lemma Decode_learn_post:
  assumes "Decode_learn bs a d = Inr (v, bs', d')" and "occ_inv d"
    and "unat (totalOccurrence d) + 2 < 65536"
  shows "occ_inv d' \<and> same_schedule d d' \<and> symbolWeights d' = symbolWeights d
     \<and> unat (highestLearnedSymbol d) \<le> unat (highestLearnedSymbol d')
     \<and> unat (totalOccurrence d') \<le> unat (totalOccurrence d) + 2"
proof -
  let ?occ = "symbolOccurrences d"
  let ?hw = "highestLearnedSymbol d + 1"
  let ?h = "unat ?hw"
  from assms(2) have lens: "length (symbols d) = length ?occ" "length (symbolWeights d) = length ?occ"
    and n32: "length ?occ < 4294967296"
    and h: "unat (highestLearnedSymbol d) < length ?occ"
    and t: "unat (totalOccurrence d) = occ_sum ?occ"
    and z: "\<forall>i. unat (highestLearnedSymbol d) < i \<and> i < length ?occ \<longrightarrow> ?occ ! i = 0"
    by (simp_all add: occ_inv_def)
  have h1: "?h = unat (highestLearnedSymbol d) + 1"
    using h n32 by (subst unat_add_u32) simp_all
  let ?d2 = "d\<lparr>highestLearnedSymbol := ?hw,
               symbols := (symbols d)[?h := ucast v],
               symbolOccurrences := ?occ[?h := ?occ ! ?h + 2],
               totalOccurrence := totalOccurrence d + 2\<rparr>"
  from assms(1) have hl: "?h < length ?occ"
    and d': "d' = (if ?hw = usedSymbolCount d
                    then ?d2\<lparr>totalOccurrence := totalOccurrence ?d2 - ucast (symbolOccurrences ?d2 ! 0),
                              symbolOccurrences := (symbolOccurrences ?d2)[0 := 0]\<rparr>
                    else ?d2)"
    by (auto simp: Decode_learn_def Let_def andThen_eq_Inr split: if_splits)
  have zero: "?occ ! ?h = 0" using z hl h1 by simp
  have s2: "occ_sum (?occ[?h := ?occ ! ?h + 2]) = occ_sum ?occ + 2"
    using occ_sum_update [OF hl, of 2] zero by simp
  have t2: "unat (totalOccurrence d + 2) = unat (totalOccurrence d) + 2"
    using assms(3) by (subst unat_add_u32) simp_all
  have z2: "\<forall>i. ?h < i \<and> i < length ?occ \<longrightarrow> ?occ[?h := ?occ ! ?h + 2] ! i = 0"
    using z h1 by (auto simp: nth_list_update)
  have inv2: "occ_inv ?d2"
    using lens n32 hl s2 t2 z2 t by (simp add: occ_inv_def)
  have fr2: "same_schedule d ?d2 \<and> symbolWeights ?d2 = symbolWeights d
     \<and> unat (highestLearnedSymbol d) \<le> unat (highestLearnedSymbol ?d2)
     \<and> unat (totalOccurrence ?d2) \<le> unat (totalOccurrence d) + 2"
    using h1 t2 by (simp add: same_schedule_def)
  show ?thesis
  proof (cases "?hw = usedSymbolCount d")
    case False
    with d' have "d' = ?d2" by simp
    with inv2 fr2 show ?thesis by simp
  next
    case True
    let ?occ2 = "symbolOccurrences ?d2"
    let ?d3 = "?d2\<lparr>totalOccurrence := totalOccurrence ?d2 - ucast (?occ2 ! 0),
                    symbolOccurrences := ?occ2[0 := 0]\<rparr>"
    from True d' have d3: "d' = ?d3" by simp
    have "0 < length ?occ" using hl by (cases ?occ) simp_all
    then have ne: "0 < length ?occ2" by simp
    have le0: "unat (?occ2 ! 0) \<le> occ_sum ?occ2" using ne by (rule occ_sum_nth_le)
    have t2': "unat (totalOccurrence ?d2) = occ_sum ?occ2"
      using inv2 by (simp add: occ_inv_def)
    have "(ucast (?occ2 ! 0) :: u32) \<le> totalOccurrence ?d2"
      using le0 t2' by (simp add: word_le_nat_alt)
    then have t3: "unat (totalOccurrence ?d2 - ucast (?occ2 ! 0))
           = unat (totalOccurrence ?d2) - unat (?occ2 ! 0)"
      by (subst unat_sub_u32) simp_all
    have s3: "occ_sum (?occ2[0 := 0]) + unat (?occ2 ! 0) = occ_sum ?occ2"
      using occ_sum_update [OF ne, of 0] by simp
    have z3: "\<forall>i. ?h < i \<and> i < length ?occ2 \<longrightarrow> ?occ2[0 := 0] ! i = 0"
      using z2 by (auto simp: nth_list_update)
    have "occ_inv ?d3"
      using inv2 t3 s3 z3 t2' le0 by (simp add: occ_inv_def)
    moreover have "unat (totalOccurrence ?d3) \<le> unat (totalOccurrence d) + 2"
    proof -
      have "unat (totalOccurrence ?d3) = unat (totalOccurrence ?d2 - ucast (?occ2 ! 0))"
        by simp
      also have "\<dots> \<le> unat (totalOccurrence ?d2)"
        by (simp only: t3 diff_le_self)
      also have "\<dots> \<le> unat (totalOccurrence d) + 2"
        using fr2 by blast
      finally show ?thesis .
    qed
    moreover have "same_schedule d ?d3 \<and> symbolWeights ?d3 = symbolWeights d
       \<and> unat (highestLearnedSymbol d) \<le> unat (highestLearnedSymbol ?d3)"
      using h1 by (simp add: same_schedule_def)
    ultimately show ?thesis
      unfolding d3 by blast
  qed
qed

lemma Decode_escape_post:
  assumes "Decode_escape bs a d = Inr (v, bs', d')" and "occ_inv d"
    and "unat (highestNormalizedSymbol d) \<le> unat (highestLearnedSymbol d)"
    and "unat (totalOccurrence d) + 2 < 65536"
  shows "occ_inv d' \<and> same_schedule d d' \<and> symbolWeights d' = symbolWeights d
     \<and> unat (highestLearnedSymbol d) \<le> unat (highestLearnedSymbol d')
     \<and> unat (totalOccurrence d') \<le> unat (totalOccurrence d) + 2"
proof -
  let ?occ = "symbolOccurrences d"
  consider (learn) bs0 where "Decode_learn bs0 a d = Inr (v, bs', d')"
    | (known) bs1 g where "Get (highestLearnedSymbol d - highestNormalizedSymbol d) bs1 = Inr (g, bs')"
        "d' = d\<lparr>symbolOccurrences :=
                   ?occ[unat (g + highestNormalizedSymbol d + 1)
                          := ?occ ! unat (g + highestNormalizedSymbol d + 1) + 2],
                 totalOccurrence := totalOccurrence d + 2\<rparr>"
    using assms(1) unfolding Decode_escape_def
    by (fastforce simp: andThen_eq_Inr Let_def split: if_splits)
  then show ?thesis
  proof cases
    case learn
    from Decode_learn_post [OF learn assms(2,4)] show ?thesis .
  next
    case known
    let ?k = "unat (g + highestNormalizedSymbol d + 1)"
    from Get_less [OF known(1)] have "g < highestLearnedSymbol d - highestNormalizedSymbol d" .
    moreover have "unat (highestLearnedSymbol d - highestNormalizedSymbol d)
         = unat (highestLearnedSymbol d) - unat (highestNormalizedSymbol d)"
      using assms(3) by (subst unat_sub_u32) (simp_all add: word_le_nat_alt)
    ultimately have g: "unat g + unat (highestNormalizedSymbol d) + 1 \<le> unat (highestLearnedSymbol d)"
      using assms(3) by (simp add: word_less_nat_alt)
    have b: "unat (highestLearnedSymbol d) < 4294967296" by (rule unat_u32_less)
    have "unat (g + highestNormalizedSymbol d) = unat g + unat (highestNormalizedSymbol d)"
      using g b by (subst unat_add_u32) simp_all
    then have "?k = unat g + unat (highestNormalizedSymbol d) + 1"
      using g b by (subst unat_add_u32) simp_all
    with g have k: "?k \<le> unat (highestLearnedSymbol d)" by simp
    from occ_inv_bump [OF assms(2) k assms(4), of 2 2]
    have "occ_inv d'" and "unat (totalOccurrence d') = unat (totalOccurrence d) + 2"
      unfolding known(2) by simp_all
    moreover have "same_schedule d d' \<and> symbolWeights d' = symbolWeights d
        \<and> highestLearnedSymbol d' = highestLearnedSymbol d"
      unfolding known(2) by (simp add: same_schedule_def)
    ultimately show ?thesis by simp
  qed
qed

lemma Decode_symbol_post:
  assumes "Decode_symbol bs a d = Inr (v, bs', d')" and "occ_inv d" and "weights_ok d"
    and "unat (highestNormalizedSymbol d) \<le> unat (highestLearnedSymbol d)"
    and "unat (totalOccurrence d) + 3 < 65536"
  shows "occ_inv d' \<and> Decode_frame d d'"
proof -
  let ?occ = "symbolOccurrences d"
  from Decode_symbolD [OF assms(1)] obtain z bs1 k bs2 where
    p: "Peek Oodle1Decoder_One bs = Inr (z, bs1)" and s: "Decode_scan 0 z d = Inr k"
    and r: "(k \<noteq> 0 \<and> (v, bs', d') = (ucast (symbols d ! k), bs2,
               d\<lparr>symbolOccurrences := ?occ[k := ?occ ! k + 1],
                 totalOccurrence := totalOccurrence d + 1\<rparr>))
        \<or> (k = 0 \<and> Decode_escape bs2 a
               (d\<lparr>symbolOccurrences := ?occ[k := ?occ ! k + 1],
                  totalOccurrence := totalOccurrence d + 1\<rparr>) = Inr (v, bs', d'))"
    by blast
  let ?d1 = "d\<lparr>symbolOccurrences := ?occ[k := ?occ ! k + 1],
               totalOccurrence := totalOccurrence d + 1\<rparr>"
  from Peek_less [OF p] have z: "z < 0x4000" by (simp add: Oodle1Decoder_One_def)
  from assms(3) have one: "\<forall>j. unat (highestNormalizedSymbol d) < j \<and> j < length (symbolWeights d)
            \<longrightarrow> symbolWeights d ! j = 0x4000"
    by (simp add: weights_ok_iff)
  from Decode_scan_le [OF s _ z one] have "k \<le> unat (highestNormalizedSymbol d)" by simp
  with assms(4) have k: "k \<le> unat (highestLearnedSymbol d)" by simp
  have "unat (totalOccurrence d) + 1 < 65536" using assms(5) by simp
  from occ_inv_bump [OF assms(2) k this, of 1 1]
  have inv1: "occ_inv ?d1" and t1: "unat (totalOccurrence ?d1) = unat (totalOccurrence d) + 1"
    by simp_all
  have fr1: "same_schedule d ?d1" "symbolWeights ?d1 = symbolWeights d"
    "highestLearnedSymbol ?d1 = highestLearnedSymbol d"
    "highestNormalizedSymbol ?d1 = highestNormalizedSymbol d"
    by (simp_all add: same_schedule_def)
  from r show ?thesis
  proof
    assume "k \<noteq> 0 \<and> (v, bs', d') = (ucast (symbols d ! k), bs2, ?d1)"
    then have "d' = ?d1" by simp
    with inv1 t1 fr1 show ?thesis by (simp add: Decode_frame_def)
  next
    assume "k = 0 \<and> Decode_escape bs2 a ?d1 = Inr (v, bs', d')"
    then have e: "Decode_escape bs2 a ?d1 = Inr (v, bs', d')" by (rule conjunct2)
    have n1: "unat (highestNormalizedSymbol ?d1) \<le> unat (highestLearnedSymbol ?d1)"
      using assms(4) by simp
    have b1: "unat (totalOccurrence ?d1) + 2 < 65536"
      using t1 assms(5) by simp
    from Decode_escape_post [OF e inv1 n1 b1]
    have inv: "occ_inv d'" and ss: "same_schedule ?d1 d'" and w: "symbolWeights d' = symbolWeights ?d1"
      and hh: "unat (highestLearnedSymbol ?d1) \<le> unat (highestLearnedSymbol d')"
      and tt: "unat (totalOccurrence d') \<le> unat (totalOccurrence ?d1) + 2"
      by blast+
    from ss have "same_schedule d d'" by (simp add: same_schedule_def)
    moreover from w have "symbolWeights d' = symbolWeights d" by simp
    moreover from hh have "unat (highestLearnedSymbol d) \<le> unat (highestLearnedSymbol d')" by simp
    moreover from tt t1 have "unat (totalOccurrence d') \<le> unat (totalOccurrence d) + 3" by linarith
    ultimately show ?thesis using inv by (simp add: Decode_frame_def)
  qed
qed

lemma Renormalize_sched:
  assumes "Renormalize d = Inr d'" and "occ_inv d"
    and "unat (decayThreshold d) \<le> 15160" and "unat (renormInterval d) \<le> 7548"
    and "unat (rapidRenormInterval d) \<le> 7548" and "unat (totalOccurrence d) \<le> 15160"
  shows "occ_inv d' \<and> sched_inv d' \<and> weights_ok d'
     \<and> highestNormalizedSymbol d' = highestLearnedSymbol d'
     \<and> unat (totalOccurrence d') \<le> unat (nextRenormWeight d')
     \<and> length (symbolWeights d') = length (symbolWeights d)"
proof -
  from Renormalize_post [OF assms(1,2)]
  have occ: "symbolOccurrences d' = symbolOccurrences d" and sy: "symbols d' = symbols d"
    and t: "totalOccurrence d' = totalOccurrence d"
    and h: "highestLearnedSymbol d' = highestLearnedSymbol d"
    and dt: "decayThreshold d' = decayThreshold d" and ri: "renormInterval d' = renormInterval d"
    and hn: "highestNormalizedSymbol d' = highestLearnedSymbol d"
    and lw: "length (symbolWeights d') = length (symbolWeights d)"
    and w: "weights_ok d'"
    and iv: "if rapidRenormInterval d * 2 < renormInterval d
         then rapidRenormInterval d' = rapidRenormInterval d * 2
              \<and> nextRenormWeight d' = totalOccurrence d + rapidRenormInterval d * 2
         else rapidRenormInterval d' = rapidRenormInterval d
              \<and> nextRenormWeight d' = totalOccurrence d + renormInterval d"
    by blast+
  from assms(2) occ sy t h lw have inv: "occ_inv d'"
    by (simp add: occ_inv_def)
  obtain i where i: "nextRenormWeight d' = totalOccurrence d + i" and ib: "unat i \<le> 7548"
    and rr: "unat (rapidRenormInterval d') \<le> 7548"
  proof (cases "rapidRenormInterval d * 2 < renormInterval d")
    case True
    then have "unat (rapidRenormInterval d * 2) < unat (renormInterval d)"
      by (simp add: word_less_nat_alt)
    with assms(4) have "unat (rapidRenormInterval d * 2) \<le> 7548" by simp
    with True iv that [of "rapidRenormInterval d * 2"] show ?thesis by simp
  next
    case False
    with iv assms(4,5) that [of "renormInterval d"] show ?thesis by simp
  qed
  have n: "unat (nextRenormWeight d') = unat (totalOccurrence d) + unat i"
    unfolding i using assms(6) ib by (subst unat_add_u32) simp_all
  have "sched_inv d'"
    using n ib rr assms(3,4,6) dt ri by (simp add: sched_inv_def)
  with inv w hn h t n lw show ?thesis by simp
qed

lemma Decode_adapt_post:
  assumes "Decode_adapt d = Inr d1" and "Decoder_inv d"
  shows "occ_inv d1 \<and> sched_inv d1 \<and> weights_ok d1
     \<and> unat (highestNormalizedSymbol d1) \<le> unat (highestLearnedSymbol d1)
     \<and> unat (totalOccurrence d1) \<le> unat (nextRenormWeight d1)
     \<and> length (symbolWeights d1) = length (symbolWeights d)"
proof -
  from assms(2) have inv: "occ_inv d" and sch: "sched_inv d" and w: "weights_ok d"
    and hn: "unat (highestNormalizedSymbol d) \<le> unat (highestLearnedSymbol d)"
    and t: "unat (totalOccurrence d) \<le> unat (nextRenormWeight d) + 3"
    by (simp_all add: Decoder_inv_def)
  from sch have dt: "unat (decayThreshold d) \<le> 15160" and ri: "unat (renormInterval d) \<le> 7548"
    and rr: "unat (rapidRenormInterval d) \<le> 7548" and nr: "unat (nextRenormWeight d) \<le> 22708"
    by (simp_all add: sched_inv_def)
  consider (none) "\<not> nextRenormWeight d \<le> totalOccurrence d" "d1 = d"
    | (renorm) "\<not> decayThreshold d \<le> totalOccurrence d" "Renormalize d = Inr d1"
    | (decay) dd where "Decay d = Inr dd" "Renormalize dd = Inr d1"
    using assms(1) unfolding Decode_adapt_def
    by (fastforce simp: andThen_eq_Inr split: if_splits)
  then show ?thesis
  proof cases
    case none
    from none(1) have "unat (totalOccurrence d) \<le> unat (nextRenormWeight d)"
      by (simp add: word_le_nat_alt)
    with inv sch w hn none(2) show ?thesis by simp
  next
    case renorm
    from renorm(1) dt have "unat (totalOccurrence d) \<le> 15160"
      by (simp add: word_le_nat_alt)
    from Renormalize_sched [OF renorm(2) inv dt ri rr this] show ?thesis by simp
  next
    case decay
    from Decay_post [OF decay(1) inv]
    have inv': "occ_inv dd" and ss: "same_schedule d dd"
      and t': "unat (totalOccurrence dd) \<le> unat (totalOccurrence d) div 2 + 1"
      and l': "length (symbolOccurrences dd) = length (symbolOccurrences d)"
      by blast+
    from t' t nr have tb: "unat (totalOccurrence dd) \<le> 15160" by linarith
    from ss dt ri rr have s': "unat (decayThreshold dd) \<le> 15160" "unat (renormInterval dd) \<le> 7548"
      "unat (rapidRenormInterval dd) \<le> 7548"
      by (simp_all add: same_schedule_def)
    have "length (symbolWeights dd) = length (symbolWeights d)"
      using inv inv' l' by (simp add: occ_inv_def)
    with Renormalize_sched [OF decay(2) inv' s' tb] show ?thesis by simp
  qed
qed

lemma Decode_post:
  assumes "Decode bs a d = Inr (v, bs', d')" and "Decoder_inv d"
  shows "Decoder_inv d' \<and> length (symbolWeights d') = length (symbolWeights d)"
proof -
  from assms(1) obtain d1 where a: "Decode_adapt d = Inr d1"
    and s: "Decode_symbol bs a d1 = Inr (v, bs', d')"
    by (auto simp: Decode_def andThen_eq_Inr)
  from Decode_adapt_post [OF a assms(2)]
  have inv: "occ_inv d1" and sch: "sched_inv d1" and w: "weights_ok d1"
    and hn: "unat (highestNormalizedSymbol d1) \<le> unat (highestLearnedSymbol d1)"
    and t: "unat (totalOccurrence d1) \<le> unat (nextRenormWeight d1)"
    and l: "length (symbolWeights d1) = length (symbolWeights d)"
    by blast+
  from sch t have "unat (totalOccurrence d1) + 3 < 65536"
    by (simp add: sched_inv_def)
  from Decode_symbol_post [OF s inv w hn this]
  have inv': "occ_inv d'" and ss: "same_schedule d1 d'" and w': "symbolWeights d' = symbolWeights d1"
    and h': "unat (highestLearnedSymbol d1) \<le> unat (highestLearnedSymbol d')"
    and t': "unat (totalOccurrence d') \<le> unat (totalOccurrence d1) + 3"
    by (simp_all add: Decode_frame_def)
  from ss have eq: "highestNormalizedSymbol d' = highestNormalizedSymbol d1"
    "nextRenormWeight d' = nextRenormWeight d1"
    by (simp_all add: same_schedule_def)
  from sch ss have "sched_inv d'"
    by (simp add: sched_inv_def same_schedule_def)
  moreover from w w' eq have "weights_ok d'"
    by (simp add: weights_ok_iff)
  moreover from hn h' eq have "unat (highestNormalizedSymbol d') \<le> unat (highestLearnedSymbol d')"
    by simp
  moreover from t t' eq have "unat (totalOccurrence d') \<le> unat (nextRenormWeight d') + 3"
    by simp
  ultimately show ?thesis
    using inv' w' l by (simp add: Decoder_inv_def)
qed

lemma Decode_calls_post:
  "Decode_calls calls d = Inr d' \<Longrightarrow> Decoder_inv d
     \<Longrightarrow> Decoder_inv d' \<and> length (symbolWeights d') = length (symbolWeights d)"
proof (induction calls arbitrary: d)
  case Nil
  then show ?case by simp
next
  case (Cons c calls)
  obtain bs a where c: "c = (bs, a)" by (cases c)
  from Cons.prems(1) obtain v bs' d1 where e: "Decode bs a d = Inr (v, bs', d1)"
    and r: "Decode_calls calls d1 = Inr d'"
    unfolding c by (auto simp: andThen_eq_Inr)
  from Decode_post [OF e Cons.prems(2)]
  have "Decoder_inv d1" and "length (symbolWeights d1) = length (symbolWeights d)" by simp_all
  with Cons.IH [OF r] show ?case by simp
qed

lemma occ_sum_replicate_0 [simp]: "occ_sum (replicate n 0) = 0"
  by (induction n) (simp_all add: occ_sum_def)

lemma decayThreshold_bounds:
  "256 \<le> unat (max 256 (min x 15160) :: u32) \<and> unat (max 256 (min x 15160) :: u32) \<le> 15160"
  by (auto simp: max_def min_def word_le_nat_alt)

lemma renormInterval_bound:
  assumes "256 \<le> unat (t :: u32)" and "unat t \<le> 15160"
  shows "unat (max 128 (min x (t div 2 - 32))) \<le> 7548"
proof -
  have "unat (t div 2) = unat t div 2" by (simp add: unat_div)
  moreover from this assms have "(32 :: u32) \<le> t div 2" by (simp add: word_le_nat_alt)
  then have "unat (t div 2 - 32) = unat (t div 2) - 32"
    by (subst unat_sub_u32) simp_all
  ultimately have "unat (t div 2 - 32) \<le> 7548" using assms by simp
  then show ?thesis
    by (auto simp: max_def min_def word_le_nat_alt)
qed

lemma Decoder_inv_fresh:
  assumes "a + 2 \<noteq> 0"
  shows "Decoder_inv (Oodle1Decoder_fresh a u)"
proof -
  let ?n = "unat (a + 2)"
  let ?d = "Oodle1Decoder_fresh a u"
  from assms have n: "0 < ?n" by (simp add: unat_gt_0)
  have n32: "?n < 4294967296" by (rule unat_u32_less)
  have "occ_sum ((replicate ?n 0)[0 := 4]) + unat (replicate ?n (0 :: u16) ! 0)
      = occ_sum (replicate ?n 0) + unat (4 :: u16)"
    using n by (intro occ_sum_update) simp
  with n have s: "occ_sum ((replicate ?n 0)[0 := 4]) = 4" by simp
  have "occ_inv ?d"
    using n n32 s by (simp add: occ_inv_def Oodle1Decoder_fresh_def Let_def)
  moreover have "sched_inv ?d"
    using decayThreshold_bounds [of "(a - 1) * 32"]
      renormInterval_bound [of "max 256 (min ((a - 1) * 32) 15160)" "(a - 1) * 2"]
    by (simp add: sched_inv_def Oodle1Decoder_fresh_def Let_def)
  moreover have "weights_ok ?d"
    by (auto simp: weights_ok_iff Oodle1Decoder_fresh_def Let_def nth_list_update)
  ultimately show ?thesis
    by (simp add: Decoder_inv_def) (simp add: Oodle1Decoder_fresh_def Let_def)
qed

lemma Initialize_Decoder_inv:
  assumes "Oodle1Decoder_Initialize a u Oodle1Decoder_new = Inr d0"
  shows "Decoder_inv d0 \<and> length (symbolWeights d0) = unat (a + 2)"
proof -
  from Oodle1Decoder_Initialize_eq_Inr [OF assms] have "a + 2 \<noteq> 0"
    by (auto simp: unat_gt_0)
  with assms Initialize_new [of a u] have "d0 = Oodle1Decoder_fresh a u" by simp
  moreover have "length (symbolWeights (Oodle1Decoder_fresh a u)) = unat (a + 2)"
    by (simp add: Oodle1Decoder_fresh_def Let_def)
  ultimately show ?thesis
    using Decoder_inv_fresh [OF \<open>a + 2 \<noteq> 0\<close>] by simp
qed

lemma occ_inv_conserved: "occ_inv d \<Longrightarrow> conserved d"
proof -
  assume a: "occ_inv d"
  then have z: "\<forall>i. unat (highestLearnedSymbol d) < i \<and> i < length (symbolOccurrences d)
            \<longrightarrow> symbolOccurrences d ! i = 0"
    by (simp add: occ_inv_def)
  from occ_sum_zero_tail [OF z] a show ?thesis
    by (simp add: conserved_def occ_inv_def occ_sum_def)
qed

lemma reachable_Decoder_inv:
  assumes "Oodle1Decoder_Initialize a u Oodle1Decoder_new = Inr d0"
    and "Decode_calls calls d0 = Inr d"
  shows "Decoder_inv d \<and> length (symbolWeights d) = unat (a + 2)"
  using Decode_calls_post [OF assms(2)] Initialize_Decoder_inv [OF assms(1)] by simp

lemma ex_Initialize_4:
  "Oodle1Decoder_Initialize 4 4 Oodle1Decoder_new = Inr (small_decoder 4 [4, 0, 0, 0, 0, 0] 4 0)"
  by code_simp

lemma ex_Decode_calls_2:
  "Decode_calls [(zero_stream 1 0x80, 4), (zero_stream 4 0x20000000, 4)]
     (small_decoder 4 [4, 0, 0, 0, 0, 0] 4 0) = Inr (small_decoder 4 [6, 2, 2, 0, 0, 0] 10 2)"
  by code_simp

lemma ex_Decode_calls_3:
  "Decode_calls [(zero_stream 1 0x80, 4), (zero_stream 4 0x20000000, 4), (zero_stream 4 0x4000000, 4)]
     (small_decoder 4 [4, 0, 0, 0, 0, 0] 4 0) = Inr renormalized_decoder"
  by code_simp

text \<open>
  C7, as the code has it.  A decoder is initialised once, right after it was constructed,
  and \<open>Decode\<close> is called on it any number of times, every call returning.  Then
  \<open>totalOccurrence\<close> is the sum of \<open>occurrences[0..=highestLearnedSymbol]\<close>, and the same
  holds after a \<open>Renormalize\<close> of that state, after a \<open>Decay\<close> of it, and after the
  \<open>Renormalize\<close> that follows the \<open>Decay\<close>, whenever these return.
\<close>

theorem totalOccurrence_conserved:
  assumes "Oodle1Decoder_Initialize alphabetSize uniqueSymbols Oodle1Decoder_new = Inr d0"
    and "Decode_calls calls d0 = Inr d"
  shows "conserved d
     \<and> (\<forall>d1. Renormalize d = Inr d1 \<longrightarrow> conserved d1)
     \<and> (\<forall>d1. Decay d = Inr d1 \<longrightarrow> conserved d1 \<and> (\<forall>d2. Renormalize d1 = Inr d2 \<longrightarrow> conserved d2))"
proof -
  from reachable_Decoder_inv [OF assms] have inv: "occ_inv d"
    by (simp add: Decoder_inv_def)
  have r: "conserved e'" if "Renormalize e = Inr e'" "occ_inv e" for e e'
  proof -
    from Renormalize_post [OF that] that(2) have "occ_inv e'"
      by (simp add: occ_inv_def)
    then show ?thesis by (rule occ_inv_conserved)
  qed
  have "conserved d1 \<and> (\<forall>d2. Renormalize d1 = Inr d2 \<longrightarrow> conserved d2)" if "Decay d = Inr d1" for d1
  proof -
    from Decay_post [OF that inv] have "occ_inv d1" by simp
    with r occ_inv_conserved show ?thesis by blast
  qed
  with inv r occ_inv_conserved show ?thesis by blast
qed

theorem totalOccurrence_conserved_witness:
  "Oodle1Decoder_Initialize 4 4 Oodle1Decoder_new = Inr (small_decoder 4 [4, 0, 0, 0, 0, 0] 4 0)
   \<and> Decode_calls [(zero_stream 1 0x80, 4), (zero_stream 4 0x20000000, 4)]
        (small_decoder 4 [4, 0, 0, 0, 0, 0] 4 0) = Inr (small_decoder 4 [6, 2, 2, 0, 0, 0] 10 2)
   \<and> conserved (small_decoder 4 [6, 2, 2, 0, 0, 0] 10 2)"
  using totalOccurrence_conserved [OF ex_Initialize_4 ex_Decode_calls_2]
    ex_Initialize_4 ex_Decode_calls_2 by blast

text \<open>
  C7 as stated fails for a decoder that is initialised a second time: \<open>Initialize\<close> sets
  \<open>totalOccurrence\<close> and \<open>occurrences[0]\<close> to 4 and keeps \<open>highestLearnedSymbol\<close> and the
  other occurrences.  After one \<open>Decode\<close> over the zero bitstream, a second \<open>Initialize\<close>
  and one more \<open>Decode\<close>, \<open>totalOccurrence\<close> is 7 and the occurrences of the slots 0 to
  \<open>highestLearnedSymbol = 2\<close> add up to 9.
\<close>

theorem totalOccurrence_not_conserved:
  "Oodle1Bitstream_new (replicate 16 0) = Inr (zero_stream 1 0x80)
   \<and> Oodle1Decoder_Initialize 4 4 Oodle1Decoder_new = Inr (small_decoder 4 [4, 0, 0, 0, 0, 0] 4 0)
   \<and> Decode (zero_stream 1 0x80) 4 (small_decoder 4 [4, 0, 0, 0, 0, 0] 4 0)
       = Inr (0, zero_stream 4 0x20000000, small_decoder 4 [5, 2, 0, 0, 0, 0] 7 1)
   \<and> Oodle1Decoder_Initialize 4 4 (small_decoder 4 [5, 2, 0, 0, 0, 0] 7 1)
       = Inr (small_decoder 4 [4, 2, 0, 0, 0, 0] 4 1)
   \<and> \<not> conserved (small_decoder 4 [4, 2, 0, 0, 0, 0] 4 1)
   \<and> Decode (zero_stream 4 0x20000000) 4 (small_decoder 4 [4, 2, 0, 0, 0, 0] 4 1)
       = Inr (0, zero_stream 4 0x4000000, small_decoder 4 [5, 2, 2, 0, 0, 0] 7 2)
   \<and> unat (totalOccurrence (small_decoder 4 [5, 2, 2, 0, 0, 0] 7 2)) = 7
   \<and> sum_list (map unat (take (unat (highestLearnedSymbol (small_decoder 4 [5, 2, 2, 0, 0, 0] 7 2)) + 1)
                               (symbolOccurrences (small_decoder 4 [5, 2, 2, 0, 0, 0] 7 2)))) = 9
   \<and> \<not> conserved (small_decoder 4 [5, 2, 2, 0, 0, 0] 7 2)"
  by code_simp

text \<open>
  C6, as the code has it.  A decoder is initialised once, right after it was constructed,
  and \<open>Decode\<close> is called on it any number of times, every call returning.  Then the
  weight table has \<open>alphabetSize + 2\<close> slots, \<open>weights[i] <= weights[i+1]\<close> for every
  \<open>i <= highestNormalizedSymbol\<close> whose slot \<open>i + 1\<close> is in the table, and
  \<open>weights[i] == One\<close> for every slot \<open>i > highestNormalizedSymbol\<close>; the same holds after
  a \<open>Renormalize\<close> of that state and after a \<open>Decay\<close> followed by \<open>Renormalize\<close>,
  whenever these return.  In each of these states the specification's wording, with
  every \<open>i <= highestNormalizedSymbol\<close>, holds exactly when \<open>highestNormalizedSymbol\<close> is
  not the last slot of the table.
\<close>

theorem weights_monotone:
  assumes "Oodle1Decoder_Initialize alphabetSize uniqueSymbols Oodle1Decoder_new = Inr d0"
    and "Decode_calls calls d0 = Inr d"
  shows "weights_ok d \<and> length (symbolWeights d) = unat (alphabetSize + 2)
     \<and> (weights_ok_claimed d
          \<longleftrightarrow> unat (highestNormalizedSymbol d) + 1 < unat (alphabetSize + 2))
     \<and> (\<forall>d1. Renormalize d = Inr d1 \<longrightarrow>
           weights_ok d1 \<and> length (symbolWeights d1) = unat (alphabetSize + 2)
           \<and> (weights_ok_claimed d1
                \<longleftrightarrow> unat (highestNormalizedSymbol d1) + 1 < unat (alphabetSize + 2)))
     \<and> (\<forall>d1 d2. Decay d = Inr d1 \<and> Renormalize d1 = Inr d2 \<longrightarrow>
           weights_ok d2 \<and> length (symbolWeights d2) = unat (alphabetSize + 2)
           \<and> (weights_ok_claimed d2
                \<longleftrightarrow> unat (highestNormalizedSymbol d2) + 1 < unat (alphabetSize + 2)))"
proof -
  from reachable_Decoder_inv [OF assms] have inv: "occ_inv d" and w: "weights_ok d"
    and l: "length (symbolWeights d) = unat (alphabetSize + 2)"
    by (simp_all add: Decoder_inv_def)
  have c: "weights_ok_claimed e
        \<longleftrightarrow> unat (highestNormalizedSymbol e) + 1 < unat (alphabetSize + 2)"
    if "weights_ok e" "length (symbolWeights e) = unat (alphabetSize + 2)" for e
    using that by (simp add: weights_ok_claimed_iff)
  have r: "weights_ok e' \<and> length (symbolWeights e') = length (symbolWeights e)"
    if "Renormalize e = Inr e'" "occ_inv e" for e e'
    using Renormalize_post [OF that] by simp
  have "weights_ok d2 \<and> length (symbolWeights d2) = unat (alphabetSize + 2)
         \<and> (weights_ok_claimed d2
                \<longleftrightarrow> unat (highestNormalizedSymbol d2) + 1 < unat (alphabetSize + 2))"
    if "Decay d = Inr d1" "Renormalize d1 = Inr d2" for d1 d2
  proof -
    from Decay_post [OF that(1) inv] have i1: "occ_inv d1"
      and "length (symbolOccurrences d1) = length (symbolOccurrences d)" by simp_all
    with inv have "length (symbolWeights d1) = length (symbolWeights d)"
      by (simp add: occ_inv_def)
    with r [OF that(2) i1] l
    have "weights_ok d2" "length (symbolWeights d2) = unat (alphabetSize + 2)" by simp_all
    with c [of d2] show ?thesis by blast
  qed
  moreover have "weights_ok d1 \<and> length (symbolWeights d1) = unat (alphabetSize + 2)
         \<and> (weights_ok_claimed d1
                \<longleftrightarrow> unat (highestNormalizedSymbol d1) + 1 < unat (alphabetSize + 2))"
    if "Renormalize d = Inr d1" for d1
  proof -
    from r [OF that inv] l
    have "weights_ok d1" "length (symbolWeights d1) = unat (alphabetSize + 2)" by simp_all
    with c [of d1] show ?thesis by blast
  qed
  ultimately show ?thesis using w l c [OF w l] by blast
qed

theorem weights_monotone_witness:
  "Oodle1Decoder_Initialize 4 4 Oodle1Decoder_new = Inr (small_decoder 4 [4, 0, 0, 0, 0, 0] 4 0)
   \<and> Decode_calls [(zero_stream 1 0x80, 4), (zero_stream 4 0x20000000, 4), (zero_stream 4 0x4000000, 4)]
        (small_decoder 4 [4, 0, 0, 0, 0, 0] 4 0) = Inr renormalized_decoder
   \<and> weights_ok renormalized_decoder
   \<and> length (symbolWeights renormalized_decoder) = unat (4 + 2 :: u32)
   \<and> weights_ok_claimed renormalized_decoder"
proof -
  have "unat (highestNormalizedSymbol renormalized_decoder) + 1 < unat (4 + 2 :: u32)"
    by simp
  with weights_monotone [OF ex_Initialize_4 ex_Decode_calls_3] ex_Initialize_4 ex_Decode_calls_3
  show ?thesis by blast
qed

text \<open>
  C6 as stated fails in two ways.  First, for a decoder that is initialised a second
  time: after \<open>Initialize(8, 8)\<close>, three calls of \<open>Decode\<close> over the zero bitstream,
  \<open>Initialize(8, 8)\<close> again and three more calls, \<open>highestNormalizedSymbol\<close> is 5 and
  \<open>weights[5] = 22934\<close> is above \<open>weights[6] = 16384\<close>.  Second, for
  \<open>i = highestNormalizedSymbol\<close> when that is the last slot: after \<open>Initialize(4, 8)\<close> on a
  new decoder and six calls of \<open>Decode\<close> over the bytes \<open>00 00 E0 00 55 ...\<close>,
  \<open>highestNormalizedSymbol\<close> is 5 in a table of 6 slots, so there is no \<open>weights[6]\<close> and no
  slot holds \<open>One\<close>.
\<close>

theorem weights_not_monotone:
  "Oodle1Bitstream_new (replicate 16 0) = Inr (zero_stream 1 0x80)
   \<and> Oodle1Decoder_Initialize 8 8 Oodle1Decoder_new
       = Inr (wide_decoder (0 # replicate 9 0x4000) (4 # replicate 9 0) 4 0 0 8 4)
   \<and> Decode_run 3 8 (zero_stream 1 0x80)
         (wide_decoder (0 # replicate 9 0x4000) (4 # replicate 9 0) 4 0 0 8 4)
       = Inr (zero_stream 4 1258240,
              wide_decoder ([0, 9830, 13106] @ replicate 7 0x4000) ([7, 2, 2, 2] @ replicate 6 0)
                13 3 2 18 8)
   \<and> Oodle1Decoder_Initialize 8 8
         (wide_decoder ([0, 9830, 13106] @ replicate 7 0x4000) ([7, 2, 2, 2] @ replicate 6 0)
            13 3 2 18 8)
       = Inr (wide_decoder (0 # replicate 9 0x4000) ([4, 2, 2, 2] @ replicate 6 0) 4 3 2 8 4)
   \<and> Decode_run 3 8 (zero_stream 4 1258240)
         (wide_decoder (0 # replicate 9 0x4000) ([4, 2, 2, 2] @ replicate 6 0) 4 3 2 8 4)
       = Inr (zero_stream 6 24157225,
              wide_decoder ([0, 9830, 13106, 16382, 19658, 22934] @ replicate 4 0x4000)
                ([7, 2, 2, 2, 2, 2, 2] @ replicate 3 0) 13 6 5 18 8)
   \<and> \<not> weights_ok_claimed
         (wide_decoder ([0, 9830, 13106, 16382, 19658, 22934] @ replicate 4 0x4000)
            ([7, 2, 2, 2, 2, 2, 2] @ replicate 3 0) 13 6 5 18 8)
   \<and> \<not> weights_ok
         (wide_decoder ([0, 9830, 13106, 16382, 19658, 22934] @ replicate 4 0x4000)
            ([7, 2, 2, 2, 2, 2, 2] @ replicate 3 0) 13 6 5 18 8)
   \<and> Oodle1Bitstream_new ([0x00, 0x00, 0xE0, 0x00] @ replicate 12 0x55) = Inr (e0_stream 1 0 0x80 0)
   \<and> Oodle1Decoder_Initialize 4 8 Oodle1Decoder_new
       = Inr (wide_decoder (0 # replicate 5 0x4000) (4 # replicate 5 0) 4 0 0 8 4)
   \<and> Decode_run 6 4 (e0_stream 1 0 0x80 0)
         (wide_decoder (0 # replicate 5 0x4000) (4 # replicate 5 0) 4 0 0 8 4)
       = Inr (e0_stream 5 480234 1524016 1,
              wide_decoder [0, 7760, 9484, 11208, 12932, 14656] [9, 3, 2, 2, 2, 2] 20 5 5 35 16)
   \<and> \<not> weights_ok_claimed
         (wide_decoder [0, 7760, 9484, 11208, 12932, 14656] [9, 3, 2, 2, 2, 2] 20 5 5 35 16)
   \<and> weights_ok
         (wide_decoder [0, 7760, 9484, 11208, 12932, 14656] [9, 3, 2, 2, 2, 2] 20 5 5 35 16)"
  by code_simp

end
